theory Spec2Isabelle
  imports Complex_Main "HOL-Library.AList" "HOL-Library.Multiset" "HOL-Library.Log_Nat"
begin

section \<open>Strings and enumerations\<close>

text \<open>
  A JavaScript string is a sequence of UTF-16 code units; a code unit is modelled as a
  natural number (below 65536 for every string the program can hold). Strict equality
  \<open>===\<close> on strings is equality of the sequences.
\<close>

type_synonym jsstring = "nat list"

definition str :: "string \<Rightarrow> jsstring" where
  "str s = map of_char s"

text \<open>
  The enums \<open>TransactionType\<close> and \<open>PaymentMethod\<close> of the source are string enums,
  \<open>INCOME = 'INCOME'\<close>, \<open>EXPENSE = 'EXPENSE'\<close>, \<open>CASH = 'CASH'\<close>, \<open>BANK = 'BANK'\<close>. A
  string enum is a string at run time, and the import stores the fields of a row under a
  type assertion, so the two fields of a transaction are strings here.
\<close>

definition INCOME :: jsstring where "INCOME = str ''INCOME''"
definition EXPENSE :: jsstring where "EXPENSE = str ''EXPENSE''"
definition CASH :: jsstring where "CASH = str ''CASH''"
definition BANK :: jsstring where "BANK = str ''BANK''"

text \<open>\<open>Object.values(TransactionType)\<close>\<close>

definition TransactionType_values :: "jsstring list" where
  "TransactionType_values = [INCOME, EXPENSE]"

definition PaymentMethod_values :: "jsstring list" where
  "PaymentMethod_values = [CASH, BANK]"

section \<open>Data model\<close>

text \<open>
  \<open>amount\<close> is a JavaScript number, an IEEE-754 double. A finite double is modelled by
  its rational value. \<open>roundDouble\<close> rounds a rational to the nearest double, ties to
  the even significand, with the 53-bit significand and the gradual underflow of the
  format; the sum and the difference of two numbers are the rounded exact results.
  Infinity, NaN and the overflow of a result beyond the largest double are outside this
  development, and the sign of zero is not kept.
\<close>

definition pow2 :: "int \<Rightarrow> rat" where
  "pow2 e = (if 0 \<le> e then 2 ^ nat e else 1 / 2 ^ nat (- e))"

text \<open>The binary exponent of a positive rational \<open>x\<close>: \<open>pow2 e \<le> x < pow2 (e + 1)\<close>.\<close>

definition binaryExponent :: "rat \<Rightarrow> int" where
  "binaryExponent x =
     (case quotient_of x of (p, q) \<Rightarrow>
        (let d = bitlen p - bitlen q in if pow2 d \<le> x then d else d - 1))"

definition roundHalfEven :: "rat \<Rightarrow> int" where
  "roundHalfEven y =
     (let f = \<lfloor>y\<rfloor>; r = y - of_int f in
      if r < 1 / 2 then f else if 1 / 2 < r then f + 1 else if even f then f else f + 1)"

definition roundDouble :: "rat \<Rightarrow> rat" where
  "roundDouble x =
     (if x = 0 then 0
      else (let e = max (binaryExponent \<bar>x\<bar> - 52) (- 1074)
            in of_int (roundHalfEven (x / pow2 e)) * pow2 e))"

text \<open>\<open>a + b\<close> and \<open>a - b\<close> on numbers.\<close>

definition plus_d :: "rat \<Rightarrow> rat \<Rightarrow> rat" where
  "plus_d a b = roundDouble (a + b)"

definition minus_d :: "rat \<Rightarrow> rat \<Rightarrow> rat" where
  "minus_d a b = roundDouble (a - b)"

record Transaction =
  id_t :: jsstring
  description :: jsstring
  amount :: rat
  type :: jsstring
  paymentMethod :: jsstring
  date :: jsstring

datatype DebtStatus = UNPAID | PAID

record Debt =
  id_d :: jsstring
  clientName :: jsstring
  description_d :: jsstring
  amount_d :: rat
  status :: DebtStatus
  date_d :: jsstring
  notes_d :: "jsstring option"

text \<open>
  The values the TypeScript type \<open>Transaction\<close> admits: both enumeration fields hold one
  of their enumeration values.
\<close>

definition isTransaction :: "Transaction \<Rightarrow> bool" where
  "isTransaction t \<longleftrightarrow>
     type t \<in> set TransactionType_values \<and>
     paymentMethod t \<in> set PaymentMethod_values"

section \<open>Balances\<close>

record BalanceAcc =
  cashInc :: rat
  cashExp :: rat
  bankInc :: rat
  bankExp :: rat

text \<open>The body of the \<open>forEach\<close> of the balance computation.\<close>

definition balanceStep :: "Transaction \<Rightarrow> BalanceAcc \<Rightarrow> BalanceAcc" where
  "balanceStep t acc =
     (if paymentMethod t = CASH then
        (if type t = INCOME then acc\<lparr>cashInc := plus_d (cashInc acc) (amount t)\<rparr>
         else acc\<lparr>cashExp := plus_d (cashExp acc) (amount t)\<rparr>)
      else
        (if type t = INCOME then acc\<lparr>bankInc := plus_d (bankInc acc) (amount t)\<rparr>
         else acc\<lparr>bankExp := plus_d (bankExp acc) (amount t)\<rparr>))"

record Balances =
  cashBalance :: rat
  bankBalance :: rat
  totalBalance :: rat

definition balances :: "Transaction list \<Rightarrow> Balances" where
  "balances transactions =
     (let acc = fold balanceStep transactions
                  \<lparr>cashInc = 0, cashExp = 0, bankInc = 0, bankExp = 0\<rparr>
      in \<lparr>cashBalance = minus_d (cashInc acc) (cashExp acc),
          bankBalance = minus_d (bankInc acc) (bankExp acc),
          totalBalance = minus_d (plus_d (cashInc acc) (bankInc acc))
                           (plus_d (cashExp acc) (bankExp acc))\<rparr>)"

text \<open>
  The signed amount of the specification: income counts positive, expense negative; and
  the sum of the signed amounts, as the exact sum of the numbers.
\<close>

definition signedAmount :: "Transaction \<Rightarrow> rat" where
  "signedAmount t =
     (if type t = INCOME then amount t
      else if type t = EXPENSE then - amount t
      else 0)"

definition signedSum :: "Transaction list \<Rightarrow> rat" where
  "signedSum ts = sum_list (map signedAmount ts)"

section \<open>String operations of the runtime\<close>

text \<open>\<open>s.split(sep)\<close> for a separator of one code unit: the empty string gives one empty field.\<close>

fun split :: "nat \<Rightarrow> jsstring \<Rightarrow> jsstring list" where
  "split sep [] = [[]]"
| "split sep (c # cs) =
     (if c = sep then [] # split sep cs
      else (case split sep cs of
              [] \<Rightarrow> [[c]]
            | r # rs \<Rightarrow> (c # r) # rs))"


text \<open>The white space and line terminators that \<open>trim\<close> removes.\<close>

definition isWhiteSpace :: "nat \<Rightarrow> bool" where
  "isWhiteSpace c \<longleftrightarrow>
     c = 0x9 \<or> c = 0xA \<or> c = 0xB \<or> c = 0xC \<or> c = 0xD \<or> c = 0x20 \<or> c = 0xA0 \<or>
     c = 0x1680 \<or> (0x2000 \<le> c \<and> c \<le> 0x200A) \<or> c = 0x2028 \<or> c = 0x2029 \<or>
     c = 0x202F \<or> c = 0x205F \<or> c = 0x3000 \<or> c = 0xFEFF"

definition trim :: "jsstring \<Rightarrow> jsstring" where
  "trim s = rev (dropWhile isWhiteSpace (rev (dropWhile isWhiteSpace s)))"

text \<open>\<open>s.includes(sub)\<close>: \<open>sub\<close> occurs in \<open>s\<close> as a contiguous run.\<close>

fun includes_s :: "jsstring \<Rightarrow> jsstring \<Rightarrow> bool" where
  "includes_s [] sub = (sub = [])"
| "includes_s (c # cs) sub = (take (length sub) (c # cs) = sub \<or> includes_s cs sub)"

text \<open>\<open>a < b\<close> on strings: the lexicographic order of the code units.\<close>

fun strLess :: "jsstring \<Rightarrow> jsstring \<Rightarrow> bool" where
  "strLess [] [] = False"
| "strLess [] (b # bs) = True"
| "strLess (a # as) [] = False"
| "strLess (a # as) (b # bs) = (a < b \<or> (a = b \<and> strLess as bs))"

text \<open>\<open>s.slice(0, n)\<close>\<close>

definition slice0 :: "nat \<Rightarrow> jsstring \<Rightarrow> jsstring" where
  "slice0 n s = take n s"

text \<open>\<open>xs[i]\<close>, with \<open>None\<close> for \<open>undefined\<close>.\<close>

definition at_index :: "'a list \<Rightarrow> nat \<Rightarrow> 'a option" where
  "at_index xs i = (if i < length xs then Some (xs ! i) else None)"

text \<open>\<open>!v\<close> for a value that is a string or \<open>undefined\<close>/\<open>null\<close>.\<close>

definition falsy :: "jsstring option \<Rightarrow> bool" where
  "falsy v \<longleftrightarrow> (case v of None \<Rightarrow> True | Some s \<Rightarrow> s = [])"

section \<open>Numeral conversion\<close>

definition isArabicPersianNumeral :: "nat \<Rightarrow> bool" where
  "isArabicPersianNumeral c \<longleftrightarrow> (0x660 \<le> c \<and> c \<le> 0x669) \<or> (0x6F0 \<le> c \<and> c \<le> 0x6F9)"

definition numeralMap :: "(nat \<times> nat) list" where
  "numeralMap =
     [(0x660, 0x30), (0x661, 0x31), (0x662, 0x32), (0x663, 0x33), (0x664, 0x34),
      (0x665, 0x35), (0x666, 0x36), (0x667, 0x37), (0x668, 0x38), (0x669, 0x39),
      (0x6F0, 0x30), (0x6F1, 0x31), (0x6F2, 0x32), (0x6F3, 0x33), (0x6F4, 0x34),
      (0x6F5, 0x35), (0x6F6, 0x36), (0x6F7, 0x37), (0x6F8, 0x38), (0x6F9, 0x39)]"

text \<open>
  The callback of the \<open>replace\<close>: the table's entry for the matched character; a key
  absent from the table would give \<open>undefined\<close>, which \<open>replace\<close> inserts as text.
\<close>

definition numeralReplacement :: "nat \<Rightarrow> jsstring" where
  "numeralReplacement c =
     (case map_of numeralMap c of Some d \<Rightarrow> [d] | None \<Rightarrow> str ''undefined'')"

definition convertToEnglishNumerals :: "jsstring \<Rightarrow> jsstring" where
  "convertToEnglishNumerals s =
     concat (map (\<lambda>c. if isArabicPersianNumeral c then numeralReplacement c else [c]) s)"

section \<open>Filtering\<close>

datatype ActiveView = transactions_view | debts_view | reports_view

record FilterState =
  searchTerm :: jsstring
  filterType :: jsstring
  startDate :: jsstring
  endDate :: jsstring
  activeView :: ActiveView
  activeAccountView :: jsstring

definition all_types :: jsstring where "all_types = str ''all''"

text \<open>
  The second predicate of \<open>filteredTransactions\<close>. \<open>toLowerCase\<close> is the runtime's
  case conversion; it is a parameter, and every result below holds for any such function.
\<close>

definition matchesFilters ::
  "(jsstring \<Rightarrow> jsstring) \<Rightarrow> FilterState \<Rightarrow> Transaction \<Rightarrow> bool" where
  "matchesFilters toLowerCase f t =
     (let englishSearchTerm = convertToEnglishNumerals (searchTerm f) in
      if englishSearchTerm \<noteq> [] \<and>
         \<not> includes_s (toLowerCase (convertToEnglishNumerals (description t)))
                     (toLowerCase englishSearchTerm)
      then False
      else if filterType f \<noteq> all_types \<and> type t \<noteq> filterType f then False
      else
        (let transactionDate = slice0 10 (date t) in
         if startDate f \<noteq> [] \<and> strLess transactionDate (startDate f) then False
         else if endDate f \<noteq> [] \<and> strLess (endDate f) transactionDate then False
         else True))"

definition inAccountScope :: "FilterState \<Rightarrow> Transaction \<Rightarrow> bool" where
  "inAccountScope f t =
     (if activeView f = transactions_view then paymentMethod t = activeAccountView f
      else True)"

definition filteredTransactions ::
  "(jsstring \<Rightarrow> jsstring) \<Rightarrow> FilterState \<Rightarrow> Transaction list \<Rightarrow> Transaction list" where
  "filteredTransactions toLowerCase f transactions =
     filter (matchesFilters toLowerCase f) (filter (inAccountScope f) transactions)"

definition handleClearFilters :: "FilterState \<Rightarrow> FilterState" where
  "handleClearFilters f =
     f\<lparr>searchTerm := [], filterType := all_types, startDate := [], endDate := []\<rparr>"

text \<open>
  Two strings are the same up to the script of their digits: they have the same length
  and agree position by position, where two digits of the same value (ASCII, Arabic-Indic
  or Extended Arabic-Indic) count as agreeing.
\<close>

definition digitValue :: "nat \<Rightarrow> nat option" where
  "digitValue c =
     (if 0x30 \<le> c \<and> c \<le> 0x39 then Some (c - 0x30)
      else if 0x660 \<le> c \<and> c \<le> 0x669 then Some (c - 0x660)
      else if 0x6F0 \<le> c \<and> c \<le> 0x6F9 then Some (c - 0x6F0)
      else None)"

definition sameGlyph :: "nat \<Rightarrow> nat \<Rightarrow> bool" where
  "sameGlyph a b \<longleftrightarrow> a = b \<or> (digitValue a \<noteq> None \<and> digitValue a = digitValue b)"

definition digitVariant :: "jsstring \<Rightarrow> jsstring \<Rightarrow> bool" where
  "digitVariant s s' \<longleftrightarrow> list_all2 sameGlyph s s'"

text \<open>A case conversion for running examples: the letters \<open>A\<close> to \<open>Z\<close> only.\<close>

definition asciiLower :: "jsstring \<Rightarrow> jsstring" where
  "asciiLower s = map (\<lambda>c. if 0x41 \<le> c \<and> c \<le> 0x5A then c + 0x20 else c) s"

section \<open>Dates\<close>

text \<open>
  A \<open>Date\<close> seen in the local time zone: the number of its local calendar day, counted
  from 1 January 1970, and the milliseconds since local midnight; or the invalid date
  that \<open>new Date(s)\<close> gives for a string it cannot parse. The conversion of an instant
  to local time and the limits of the time range are outside this development.
\<close>

datatype Date = InvalidDate | LocalTime int int

text \<open>The weekday of a day number, 0 for Sunday; 1 January 1970 was a Thursday.\<close>

definition weekDay :: "int \<Rightarrow> int" where
  "weekDay n = (n + 4) mod 7"

text \<open>Year, month (1 to 12) and day of the month of a day number, Gregorian calendar.\<close>

definition civilFromDays :: "int \<Rightarrow> int \<times> int \<times> int" where
  "civilFromDays n =
     (let z = n + 719468;
          era = z div 146097;
          doe = z mod 146097;
          yoe = (doe - doe div 1460 + doe div 36524 - doe div 146096) div 365;
          doy = doe - (365 * yoe + yoe div 4 - yoe div 100);
          mp = (5 * doy + 2) div 153;
          d = doy - (153 * mp + 2) div 5 + 1;
          m = (if mp < 10 then mp + 3 else mp - 9);
          y = yoe + era * 400
      in (if m \<le> 2 then y + 1 else y, m, d))"

definition dateFromTime :: "int \<Rightarrow> int" where
  "dateFromTime n = (case civilFromDays n of (y, m, d) \<Rightarrow> d)"

text \<open>
  \<open>setDate(dt)\<close> on a date of day number \<open>n\<close>: the day number of the first of the month
  of \<open>n\<close>, plus \<open>dt - 1\<close>; values of \<open>dt\<close> outside the month run into the neighbouring
  months.
\<close>

definition makeDay :: "int \<Rightarrow> int \<Rightarrow> int" where
  "makeDay n dt = (n - (dateFromTime n - 1)) + (dt - 1)"

fun getStartOfWeek :: "Date \<Rightarrow> Date" where
  "getStartOfWeek InvalidDate = InvalidDate"
| "getStartOfWeek (LocalTime n ms) =
     (let day = weekDay n;
          diff = dateFromTime n - day + (if day = 0 then - 6 else 1)
      in LocalTime (makeDay n diff) 0)"

fun showNat :: "nat \<Rightarrow> jsstring" where
  "showNat n = (if n < 10 then [0x30 + n] else showNat (n div 10) @ [0x30 + n mod 10])"

declare showNat.simps [simp del]

definition padStart :: "nat \<Rightarrow> jsstring \<Rightarrow> jsstring" where
  "padStart k s = replicate (k - length s) 0x30 @ s"

text \<open>
  \<open>toLocaleDateString('en-CA')\<close>: the year as it is, and month and day with two digits,
  joined by hyphens (modelled for the years from 1 on), and the text \<open>Invalid Date\<close> for
  the invalid date.
\<close>

fun toLocaleDateString :: "Date \<Rightarrow> jsstring" where
  "toLocaleDateString InvalidDate = str ''Invalid Date''"
| "toLocaleDateString (LocalTime n ms) =
     (case civilFromDays n of (y, m, d) \<Rightarrow>
        showNat (nat y) @ [0x2D] @ padStart 2 (showNat (nat m)) @ [0x2D] @
        padStart 2 (showNat (nat d)))"

section \<open>Temporal grouping\<close>

datatype GroupingMode = daily | weekly

text \<open>
  \<open>newDate\<close> stands for \<open>new Date(s)\<close> read in the local time zone; it is a parameter.
\<close>

definition groupKey :: "(jsstring \<Rightarrow> Date) \<Rightarrow> GroupingMode \<Rightarrow> Transaction \<Rightarrow> jsstring" where
  "groupKey newDate groupingMode transaction =
     (let transactionDate = newDate (date transaction) in
      if groupingMode = daily then toLocaleDateString transactionDate
      else toLocaleDateString (getStartOfWeek transactionDate))"

text \<open>
  The accumulator is an object used as a dictionary; its keys keep their insertion order,
  so it is an association list. A key of the form above never meets a property that
  an object inherits.
\<close>

definition groupStep ::
  "(jsstring \<Rightarrow> Date) \<Rightarrow> GroupingMode \<Rightarrow> (jsstring \<times> Transaction list) list \<Rightarrow> Transaction
     \<Rightarrow> (jsstring \<times> Transaction list) list" where
  "groupStep newDate groupingMode acc transaction =
     (let key = groupKey newDate groupingMode transaction;
          acc1 = (if map_of acc key = None then acc @ [(key, [])] else acc)
      in map (\<lambda>(k, b). if k = key then (k, b @ [transaction]) else (k, b)) acc1)"

definition groupedTransactions ::
  "(jsstring \<Rightarrow> Date) \<Rightarrow> GroupingMode \<Rightarrow> Transaction list
     \<Rightarrow> (jsstring \<times> Transaction list) list" where
  "groupedTransactions newDate groupingMode filtered =
     foldl (groupStep newDate groupingMode) [] filtered"

section \<open>The store and its handlers\<close>

record AppState =
  transactions :: "Transaction list"
  debts :: "Debt list"
  debtToSettle :: "Debt option"
  transactionToDelete :: "jsstring option"
  isTransactionModalOpen :: bool

definition totalUnpaidDebts :: "Debt list \<Rightarrow> rat" where
  "totalUnpaidDebts ds =
     foldl (\<lambda>sum d. plus_d sum (amount_d d)) 0 (filter (\<lambda>d. status d = UNPAID) ds)"

text \<open>
  \<open>isAccountantMode\<close> is read from the address of the page; in that mode the request
  only shows a notice.
\<close>

definition handleSettleDebtRequest :: "bool \<Rightarrow> jsstring \<Rightarrow> AppState \<Rightarrow> AppState" where
  "handleSettleDebtRequest isAccountantMode debtId s =
     (if isAccountantMode then s
      else (case find (\<lambda>d. id_d d = debtId) (debts s) of
              Some debt \<Rightarrow> s\<lparr>debtToSettle := Some debt\<rparr>
            | None \<Rightarrow> s))"

definition settleDescription :: "Debt \<Rightarrow> jsstring" where
  "settleDescription d =
     [1578, 1587, 1583, 1610, 1583, 32, 1583, 1610, 1606, 58, 32] @ clientName d @
     str '' - '' @ description_d d"

text \<open>
  \<open>nowId\<close> and \<open>nowIso\<close> are the clock's readings \<open>new Date().getTime().toString()\<close> and
  \<open>new Date().toISOString()\<close>.
\<close>

definition handleConfirmSettleDebt ::
  "jsstring \<Rightarrow> jsstring \<Rightarrow> jsstring \<Rightarrow> AppState \<Rightarrow> AppState" where
  "handleConfirmSettleDebt nowId nowIso settleMethod s =
     (case debtToSettle s of
        None \<Rightarrow> s
      | Some dts \<Rightarrow>
          (let newTransaction =
                 \<lparr>id_t = nowId, description = settleDescription dts, amount = amount_d dts,
                  type = INCOME, paymentMethod = settleMethod, date = nowIso\<rparr>
           in s\<lparr>transactions := newTransaction # transactions s,
                debts := map (\<lambda>d. if id_d d = id_d dts then d\<lparr>status := PAID\<rparr> else d) (debts s),
                debtToSettle := None\<rparr>))"

text \<open>
  The settlement of a debt as the user performs it: the request on the debt's row, then
  the confirmation with the chosen payment method.
\<close>

definition settleDebt ::
  "bool \<Rightarrow> jsstring \<Rightarrow> jsstring \<Rightarrow> jsstring \<Rightarrow> jsstring \<Rightarrow> AppState \<Rightarrow> AppState" where
  "settleDebt isAccountantMode nowId nowIso debtId settleMethod s =
     handleConfirmSettleDebt nowId nowIso settleMethod
       (handleSettleDebtRequest isAccountantMode debtId s)"

definition handleDeleteTransactionRequest :: "bool \<Rightarrow> jsstring \<Rightarrow> AppState \<Rightarrow> AppState" where
  "handleDeleteTransactionRequest isAccountantMode i s =
     (if isAccountantMode then s
      else s\<lparr>transactionToDelete := Some i, isTransactionModalOpen := True\<rparr>)"

text \<open>\<open>if (transactionToDelete)\<close> holds for a string that is not empty.\<close>

definition handleConfirmTransactionDelete :: "AppState \<Rightarrow> AppState" where
  "handleConfirmTransactionDelete s =
     (let s1 = (if \<not> falsy (transactionToDelete s)
                then s\<lparr>transactions :=
                        filter (\<lambda>t. Some (id_t t) \<noteq> transactionToDelete s) (transactions s)\<rparr>
                else s)
      in s1\<lparr>isTransactionModalOpen := False, transactionToDelete := None\<rparr>)"

section \<open>Export and import\<close>









datatype ImportError = EmptyOrInvalidFile | WrongFormat

datatype ImportAlert = NoAlert | ErrorAlert ImportError | SuccessAlert nat

text \<open>
  One data row: \<open>None\<close> for a row that is skipped. A field beyond the end of the row is
  \<open>undefined\<close>; \<open>parseFloat(undefined)\<close> is \<open>NaN\<close>. A row that passes the checks has a
  sixth field, so its first five are present and the last case is never taken.
\<close>

definition importRow :: "(jsstring \<Rightarrow> rat option) \<Rightarrow> jsstring \<Rightarrow> Transaction option" where
  "importRow parseFloat row =
     (let values = split 0x2C row in
      case (case at_index values 2 of None \<Rightarrow> None | Some v \<Rightarrow> parseFloat v) of
        None \<Rightarrow> None
      | Some amt \<Rightarrow>
          if falsy (at_index values 0) \<or> falsy (at_index values 5) \<or>
             \<not> (case at_index values 3 of None \<Rightarrow> False
                                         | Some ty \<Rightarrow> ty \<in> set TransactionType_values)
          then None
          else
            (case (at_index values 0, at_index values 1, at_index values 3,
                   at_index values 4, at_index values 5) of
               (Some i, Some de, Some ty, Some pm, Some da) \<Rightarrow>
                 Some \<lparr>id_t = i, description = filter (\<lambda>c. c \<noteq> 0x22) de, amount = amt,
                       type = ty, paymentMethod = pm, date = da\<rparr>
             | _ \<Rightarrow> None))"

text \<open>
  The import of a file's text into the store \<open>prev\<close>: the notice shown and the new list
  of transactions. An empty text returns at once, without a notice.
\<close>

definition handleImport ::
  "(jsstring \<Rightarrow> rat option) \<Rightarrow> jsstring \<Rightarrow> Transaction list \<Rightarrow> ImportAlert \<times> Transaction list" where
  "handleImport parseFloat text prev =
     (if text = [] then (NoAlert, prev)
      else
        (case filter (\<lambda>row. trim row \<noteq> []) (split 0xA text) of
           [] \<Rightarrow> (ErrorAlert EmptyOrInvalidFile, prev)
         | headerRow # rows \<Rightarrow>
             (let headers = map trim (split 0x2C headerRow) in
              if length headers < 6 \<or> at_index headers 1 \<noteq> Some (str ''description'') \<or>
                 at_index headers 2 \<noteq> Some (str ''amount'')
              then (ErrorAlert WrongFormat, prev)
              else
                (let importedTransactions = List.map_filter (importRow parseFloat) rows;
                     newTransactions =
                       filter (\<lambda>t. id_t t \<notin> set (map id_t prev)) importedTransactions
                 in (SuccessAlert (length importedTransactions), newTransactions @ prev)))))"

text \<open>
  Stand-ins for the two number conversions, to run examples: \<open>parseFloat\<close> on a text
  that starts with ASCII digits followed by neither a point nor an exponent (and \<open>NaN\<close>
  on a text that starts with a letter), and \<open>toString\<close> on a natural number.
\<close>

definition isDigit :: "nat \<Rightarrow> bool" where
  "isDigit c \<longleftrightarrow> 0x30 \<le> c \<and> c \<le> 0x39"

definition parseFloatDigits :: "jsstring \<Rightarrow> rat option" where
  "parseFloatDigits s =
     (let ds = takeWhile isDigit s in
      if ds = [] then None
      else Some (of_nat (foldl (\<lambda>a c. 10 * a + (c - 0x30)) 0 ds)))"


section \<open>Example data\<close>

definition exampleTransactions :: "Transaction list" where
  "exampleTransactions =
     [\<lparr>id_t = str ''1'', description = str ''roses'', amount = 100, type = INCOME,
       paymentMethod = CASH, date = str ''2024-01-07T10:00:00.000Z''\<rparr>,
      \<lparr>id_t = str ''2'', description = str ''ribbon'', amount = 40, type = EXPENSE,
       paymentMethod = CASH, date = str ''2024-01-08T09:30:00.000Z''\<rparr>,
      \<lparr>id_t = str ''3'', description = str ''order 123'', amount = 50, type = INCOME,
       paymentMethod = BANK, date = str ''2024-01-08T11:00:00.000Z''\<rparr>]"

definition exampleFilter :: FilterState where
  "exampleFilter =
     \<lparr>searchTerm = str ''ro'', filterType = INCOME, startDate = [], endDate = [],
      activeView = transactions_view, activeAccountView = CASH\<rparr>"

lemmas enum_defs = INCOME_def EXPENSE_def CASH_def BANK_def str_def
  TransactionType_values_def PaymentMethod_values_def

definition exampleDebts :: "Debt list" where
  "exampleDebts =
     [\<lparr>id_d = str ''debt-1'', clientName = str ''Lina'', description_d = str ''wedding'',
       amount_d = 250, status = UNPAID, date_d = str ''2024-01-03T08:00:00.000Z'',
       notes_d = None\<rparr>,
      \<lparr>id_d = str ''debt-2'', clientName = str ''Omar'', description_d = str ''bouquet'',
       amount_d = 80, status = UNPAID, date_d = str ''2024-01-04T08:00:00.000Z'',
       notes_d = Some (str ''friday'')\<rparr>,
      \<lparr>id_d = str ''debt-3'', clientName = str ''Sara'', description_d = str ''tulips'',
       amount_d = 30, status = PAID, date_d = str ''2024-01-05T08:00:00.000Z'',
       notes_d = None\<rparr>]"

definition exampleState :: AppState where
  "exampleState =
     \<lparr>transactions = exampleTransactions, debts = exampleDebts, debtToSettle = None,
      transactionToDelete = None, isTransactionModalOpen = False\<rparr>"

text \<open>
  A code unit with a digit of any of the three scripts turned into the ASCII digit of
  the same value, and any other code unit left as it is.
\<close>

definition normDigit :: "nat \<Rightarrow> nat" where
  "normDigit c = (case digitValue c of Some v \<Rightarrow> 0x30 + v | None \<Rightarrow> c)"

text \<open>
  A case conversion keeps a run of digits: it leaves the run \<open>ds\<close> alone as it is, and
  where \<open>ds\<close> occurs in a text, the converted text still has \<open>ds\<close> at that place.
\<close>

definition keepsDigits :: "(jsstring \<Rightarrow> jsstring) \<Rightarrow> jsstring \<Rightarrow> bool" where
  "keepsDigits toLowerCase ds \<longleftrightarrow>
     toLowerCase ds = ds \<and> (\<forall>a b. \<exists>a' b'. toLowerCase (a @ ds @ b) = a' @ ds @ b')"

text \<open>
  The week start of the specification: the weekday with Sunday counted as 7, and the day
  minus \<open>(weekday - 1) mod 7\<close> days.
\<close>

definition isoWeekday :: "int \<Rightarrow> int" where
  "isoWeekday n = (if weekDay n = 0 then 7 else weekDay n)"

definition weekStart :: "int \<Rightarrow> int" where
  "weekStart n = n - (isoWeekday n - 1) mod 7"

text \<open>
  A stand-in for \<open>new Date(s)\<close> on the dates of the example data, with UTC as the local
  time zone: 7 January 2024 is day 19729, a Sunday.
\<close>

definition exampleNewDate :: "jsstring \<Rightarrow> Date" where
  "exampleNewDate s =
     (case map_of
        [(str ''2024-01-07T10:00:00.000Z'', LocalTime 19729 36000000),
         (str ''2024-01-08T09:30:00.000Z'', LocalTime 19730 34200000),
         (str ''2024-01-08T11:00:00.000Z'', LocalTime 19730 39600000)] s of
        Some d \<Rightarrow> d
      | None \<Rightarrow> InvalidDate)"

section \<open>Notions used to state the properties of the import and the export\<close>

fun isErrorAlert :: "ImportAlert \<Rightarrow> bool" where
  "isErrorAlert (ErrorAlert e) = True"
| "isErrorAlert NoAlert = False"
| "isErrorAlert (SuccessAlert n) = False"

text \<open>The lines of a text that the import looks at: those that are not blank.\<close>

definition importLines :: "jsstring \<Rightarrow> jsstring list" where
  "importLines text = filter (\<lambda>row. trim row \<noteq> []) (split 0xA text)"

text \<open>A header row that passes the import's check of the header.\<close>

definition acceptedHeader :: "jsstring \<Rightarrow> bool" where
  "acceptedHeader headerRow \<longleftrightarrow>
     (let headers = map trim (split 0x2C headerRow) in
      \<not> (length headers < 6 \<or> at_index headers 1 \<noteq> Some (str ''description'') \<or>
         at_index headers 2 \<noteq> Some (str ''amount'')))"








definition headerText :: jsstring where
  "headerText = str ''id,description,amount,type,paymentMethod,date''"

text \<open>A file with one data row whose payment method is \<open>FOO\<close>.\<close>

definition unknownMethodText :: jsstring where
  "unknownMethodText = headerText @ [0xA] @ str ''9,roses,5,INCOME,FOO,2024-01-09''"



section \<open>Notions used to state the properties of the balances\<close>

text \<open>
  Amounts for which double arithmetic is exact: whole numbers whose absolute values add
  up to at most \<open>2^53\<close>.
\<close>

definition wholeAmounts :: "rat list \<Rightarrow> bool" where
  "wholeAmounts as \<longleftrightarrow> list_all (\<lambda>a. a \<in> \<int>) as \<and> sum_list (map abs as) \<le> 2 ^ 53"

text \<open>
  Three transactions with amounts in cents, each amount the double nearest to the decimal
  number: 19.99 income in cash, 5.01 income by bank, 24.90 expense in cash.
\<close>

definition centTransactions :: "Transaction list" where
  "centTransactions =
     [\<lparr>id_t = str ''1'', description = str ''roses'', amount = roundDouble (1999 / 100),
       type = INCOME, paymentMethod = CASH, date = str ''2024-01-07T10:00:00.000Z''\<rparr>,
      \<lparr>id_t = str ''2'', description = str ''tulips'', amount = roundDouble (501 / 100),
       type = INCOME, paymentMethod = BANK, date = str ''2024-01-08T09:30:00.000Z''\<rparr>,
      \<lparr>id_t = str ''3'', description = str ''vases'', amount = roundDouble (249 / 10),
       type = EXPENSE, paymentMethod = CASH, date = str ''2024-01-08T11:00:00.000Z''\<rparr>]"

text \<open>
  Two unpaid debts with amounts in cents, 19.99 and 5.01, each the double nearest to the
  decimal number, in a store without transactions.
\<close>

definition centDebts :: "Debt list" where
  "centDebts =
     [\<lparr>id_d = str ''debt-1'', clientName = str ''Lina'', description_d = str ''wedding'',
       amount_d = roundDouble (1999 / 100), status = UNPAID,
       date_d = str ''2024-01-03T08:00:00.000Z'', notes_d = None\<rparr>,
      \<lparr>id_d = str ''debt-2'', clientName = str ''Omar'', description_d = str ''bouquet'',
       amount_d = roundDouble (501 / 100), status = UNPAID,
       date_d = str ''2024-01-04T08:00:00.000Z'', notes_d = None\<rparr>]"

definition centState :: AppState where
  "centState =
     \<lparr>transactions = [], debts = centDebts, debtToSettle = None,
      transactionToDelete = None, isTransactionModalOpen = False\<rparr>"

section \<open>Properties\<close>

lemma enum_values_distinct:
  "INCOME \<noteq> EXPENSE" "CASH \<noteq> BANK"
  by (simp_all add: INCOME_def EXPENSE_def CASH_def BANK_def str_def)

section \<open>Filtering: idempotence and cleared filters\<close>

lemma filteredTransactions_idem:
  "filteredTransactions lc f (filteredTransactions lc f ts) = filteredTransactions lc f ts"
  by (simp add: filteredTransactions_def conj_commute conj_left_commute cong: filter_cong)

lemma matchesFilters_cleared: "matchesFilters lc (handleClearFilters f) t"
  by (simp add: matchesFilters_def handleClearFilters_def convertToEnglishNumerals_def)

lemma inAccountScope_cleared: "inAccountScope (handleClearFilters f) = inAccountScope f"
  by (simp add: inAccountScope_def handleClearFilters_def fun_eq_iff)

text \<open>
  C7, as the claim states it, fails: \<open>handleClearFilters\<close> does not clear the account
  scope, which is the first stage of the filter. With the cash account shown, the
  cleared filter drops the bank transaction of the example list.
\<close>

theorem filter_cleared_counterexample:
  "filteredTransactions asciiLower (handleClearFilters exampleFilter) exampleTransactions
     \<noteq> exampleTransactions"
  by (simp add: filteredTransactions_def handleClearFilters_def exampleFilter_def
      exampleTransactions_def inAccountScope_def enum_defs)

text \<open>
  C7, amended. The filter is idempotent: applying it to its own result changes nothing.
  With the filters cleared (empty search term, type filter \<open>all\<close>, empty start and end
  dates) it returns, in their original order, the transactions in the account scope:
  those of the active account while the transactions view is shown, and the whole list in
  the other views. The filter is a function of the list and builds a new list.
\<close>

theorem filter_idempotent_cleared:
  "filteredTransactions lc f (filteredTransactions lc f ts) = filteredTransactions lc f ts
   \<and> filteredTransactions lc (handleClearFilters f) ts = filter (inAccountScope f) ts
   \<and> (activeView f \<noteq> transactions_view \<longrightarrow>
        filteredTransactions lc (handleClearFilters f) ts = ts)"
proof -
  have a: "filteredTransactions lc (handleClearFilters f) ts = filter (inAccountScope f) ts"
    by (simp add: filteredTransactions_def matchesFilters_cleared inAccountScope_cleared)
  have b: "activeView f \<noteq> transactions_view \<Longrightarrow> filter (inAccountScope f) ts = ts"
    by (simp add: inAccountScope_def)
  show ?thesis using a b by (simp add: filteredTransactions_idem)
qed

theorem filter_idempotent_cleared_witness:
  "activeView (exampleFilter\<lparr>activeView := reports_view\<rparr>) \<noteq> transactions_view
   \<and> filteredTransactions asciiLower
        (handleClearFilters (exampleFilter\<lparr>activeView := reports_view\<rparr>)) exampleTransactions
       = exampleTransactions
   \<and> filteredTransactions asciiLower exampleFilter
        (filteredTransactions asciiLower exampleFilter exampleTransactions)
       = filteredTransactions asciiLower exampleFilter exampleTransactions"
proof -
  let ?f = "exampleFilter\<lparr>activeView := reports_view\<rparr>"
  have h: "activeView ?f \<noteq> transactions_view" by simp
  from filter_idempotent_cleared [of asciiLower ?f exampleTransactions] h
  have a: "filteredTransactions asciiLower (handleClearFilters ?f) exampleTransactions
             = exampleTransactions"
    by blast
  from filter_idempotent_cleared [of asciiLower exampleFilter exampleTransactions]
  have b: "filteredTransactions asciiLower exampleFilter
             (filteredTransactions asciiLower exampleFilter exampleTransactions)
           = filteredTransactions asciiLower exampleFilter exampleTransactions"
    by blast
  show ?thesis using h a b by blast
qed

section \<open>Deleting a transaction\<close>

text \<open>
  C10. Confirming the pending deletion of the id \<open>i\<close> leaves exactly the transactions whose
  id differs from \<open>i\<close>, unchanged and in their original order, and leaves the debts as
  they were. The guard of the handler takes the empty id for no pending deletion, so for
  the empty id this needs that no stored transaction has an empty id (the ids that the
  program creates are timestamps, and the import skips a row with an empty id).
\<close>

theorem delete_transaction_frame:
  assumes "transactionToDelete s = Some i"
    and "i = [] \<longrightarrow> list_all (\<lambda>t. id_t t \<noteq> []) (transactions s)"
  shows "transactions (handleConfirmTransactionDelete s) =
           filter (\<lambda>t. id_t t \<noteq> i) (transactions s)
       \<and> debts (handleConfirmTransactionDelete s) = debts s"
proof (cases "i = []")
  case True
  with assms(2) have "filter (\<lambda>t. id_t t \<noteq> i) (transactions s) = transactions s"
    by (simp add: filter_id_conv list_all_iff)
  with True assms(1) show ?thesis
    by (simp add: handleConfirmTransactionDelete_def falsy_def Let_def)
next
  case False
  with assms(1) show ?thesis
    by (simp add: handleConfirmTransactionDelete_def falsy_def Let_def)
qed

theorem delete_transaction_frame_witness:
  "transactionToDelete (exampleState\<lparr>transactionToDelete := Some (str ''2'')\<rparr>) = Some (str ''2'')
   \<and> str ''2'' \<noteq> []
   \<and> map id_t (transactions (handleConfirmTransactionDelete
          (exampleState\<lparr>transactionToDelete := Some (str ''2'')\<rparr>))) = [str ''1'', str ''3'']
   \<and> debts (handleConfirmTransactionDelete
          (exampleState\<lparr>transactionToDelete := Some (str ''2'')\<rparr>)) = exampleDebts
   \<and> list_all (\<lambda>t. id_t t \<noteq> []) (transactions exampleState)
   \<and> transactions (handleConfirmTransactionDelete
          (exampleState\<lparr>transactionToDelete := Some []\<rparr>)) = exampleTransactions"
proof -
  let ?s = "exampleState\<lparr>transactionToDelete := Some (str ''2'')\<rparr>"
  let ?e = "exampleState\<lparr>transactionToDelete := Some []\<rparr>"
  have h1: "transactionToDelete ?s = Some (str ''2'')" by simp
  have n: "str ''2'' \<noteq> []" by (simp add: str_def)
  then have h2: "str ''2'' = [] \<longrightarrow> list_all (\<lambda>t. id_t t \<noteq> []) (transactions ?s)" by simp
  have t: "transactions ?s = exampleTransactions" and d: "debts ?s = exampleDebts"
    by (simp_all add: exampleState_def)
  have f: "map id_t (filter (\<lambda>t. id_t t \<noteq> str ''2'') exampleTransactions) =
      [str ''1'', str ''3'']"
    by (simp add: exampleTransactions_def str_def)
  from delete_transaction_frame [OF h1 h2] t d f
  have r1: "map id_t (transactions (handleConfirmTransactionDelete ?s)) = [str ''1'', str ''3'']"
    and r2: "debts (handleConfirmTransactionDelete ?s) = exampleDebts"
    by simp_all
  have a: "list_all (\<lambda>t. id_t t \<noteq> []) (transactions exampleState)"
    by (simp add: exampleState_def exampleTransactions_def str_def)
  have e1: "transactionToDelete ?e = Some []" by simp
  have e2: "[] = [] \<longrightarrow> list_all (\<lambda>t. id_t t \<noteq> []) (transactions ?e)"
    using a by simp
  have g: "filter (\<lambda>t. id_t t \<noteq> []) exampleTransactions = exampleTransactions"
    by (simp add: exampleTransactions_def str_def)
  from delete_transaction_frame [OF e1 e2] g
  have r3: "transactions (handleConfirmTransactionDelete ?e) = exampleTransactions"
    by (simp add: exampleState_def)
  show ?thesis by (intro conjI h1 n r1 r2 a r3)
qed

section \<open>Start of the week\<close>

lemma getStartOfWeek_LocalTime:
  "getStartOfWeek (LocalTime n ms) = LocalTime (weekStart n) 0"
proof -
  have "0 \<le> weekDay n" "weekDay n < 7" by (simp_all add: weekDay_def)
  then have "(isoWeekday n - 1) mod 7 = (if weekDay n = 0 then 6 else weekDay n - 1)"
    by (auto simp: isoWeekday_def)
  then show ?thesis
    by (simp add: Let_def makeDay_def weekStart_def)
qed

lemma weekDay_minus: "weekDay (n - k) = (weekDay n - k) mod 7"
proof -
  have "n - k + 4 = (n + 4) - k" by simp
  then show ?thesis by (simp only: weekDay_def mod_diff_left_eq)
qed

lemma weekStart_offset:
  "weekStart n = n - (if weekDay n = 0 then 6 else weekDay n - 1)"
proof -
  have "0 \<le> weekDay n" "weekDay n < 7" by (simp_all add: weekDay_def)
  then show ?thesis by (auto simp: weekStart_def isoWeekday_def)
qed

lemma weekDay_weekStart: "weekDay (weekStart n) = 1"
  by (simp add: weekStart_offset weekDay_minus)

text \<open>
  C8. For every date, with local day number \<open>n\<close>, \<open>getStartOfWeek\<close> gives local midnight
  of the day \<open>n - (w - 1) mod 7\<close>, where \<open>w\<close> is the weekday of \<open>n\<close> with Sunday counted as
  7; that day is a Monday; a Sunday goes to the Monday six days before and a Monday to
  itself; and the weekly grouping key of a transaction is the text of that day.
\<close>

theorem week_start_monday:
  "getStartOfWeek (LocalTime n ms) = LocalTime (weekStart n) 0
   \<and> weekDay (weekStart n) = 1
   \<and> (weekDay n = 0 \<longrightarrow> weekStart n = n - 6)
   \<and> (weekDay n = 1 \<longrightarrow> weekStart n = n)
   \<and> (newDate (date t) = LocalTime n ms \<longrightarrow>
        groupKey newDate weekly t = toLocaleDateString (LocalTime (weekStart n) 0))"
proof -
  have a: "weekDay n = 0 \<Longrightarrow> weekStart n = n - 6"
    by (simp add: weekStart_def isoWeekday_def)
  have b: "weekDay n = 1 \<Longrightarrow> weekStart n = n"
    by (simp add: weekStart_def isoWeekday_def)
  have c: "newDate (date t) = LocalTime n ms \<Longrightarrow>
        groupKey newDate weekly t = toLocaleDateString (LocalTime (weekStart n) 0)"
    by (simp add: groupKey_def Let_def getStartOfWeek_LocalTime del: getStartOfWeek.simps)
  show ?thesis
    using a b c getStartOfWeek_LocalTime [of n ms] weekDay_weekStart [of n] by blast
qed


theorem week_start_monday_witness:
  "weekDay 19729 = 0 \<and> weekStart 19729 = 19723
   \<and> weekDay 19730 = 1 \<and> weekStart 19730 = 19730
   \<and> exampleNewDate (date (exampleTransactions ! 0)) = LocalTime 19729 36000000
   \<and> groupKey exampleNewDate weekly (exampleTransactions ! 0) = str ''2024-01-01''"
proof -
  have a: "weekDay 19729 = 0" and b: "weekDay 19730 = 1" by (simp_all add: weekDay_def)
  have c: "exampleNewDate (date (exampleTransactions ! 0)) = LocalTime 19729 36000000"
    by (simp add: exampleNewDate_def exampleTransactions_def str_def)
  note w = week_start_monday [of 19729 36000000 exampleNewDate "exampleTransactions ! 0"]
  note w' = week_start_monday [of 19730 0 exampleNewDate "exampleTransactions ! 0"]
  from w a have "weekStart 19729 = 19729 - 6" by blast
  then have d: "weekStart 19729 = 19723" by simp
  from w' b have e: "weekStart 19730 = 19730" by blast
  have f: "toLocaleDateString (LocalTime 19723 0) = str ''2024-01-01''"
    by code_simp
  from w c have "groupKey exampleNewDate weekly (exampleTransactions ! 0) =
      toLocaleDateString (LocalTime (weekStart 19729) 0)"
    by blast
  then have g: "groupKey exampleNewDate weekly (exampleTransactions ! 0) = str ''2024-01-01''"
    by (simp only: d f)
  show ?thesis using a b c d e g by blast
qed

section \<open>Temporal grouping is a partition\<close>

lemma fst_bucket_push:
  "map fst (map (\<lambda>(k, b). if k = key then (k, b @ [t]) else (k, b)) acc) = map fst acc"
  by (induction acc) auto

lemma map_of_bucket_push:
  "map_of (map (\<lambda>(k, b). if k = key then (k, b @ [t]) else (k, b)) acc) k' =
     (if k' = key then map_option (\<lambda>b. b @ [t]) (map_of acc key) else map_of acc k')"
  by (induction acc) auto

lemma bucket_push_absent:
  "key \<notin> set (map fst acc) \<Longrightarrow>
   map (\<lambda>(k, b). if k = key then (k, b @ [t]) else (k, b)) acc = acc"
  by (induction acc) auto

lemma mset_bucket_push:
  "distinct (map fst acc) \<Longrightarrow> key \<in> set (map fst acc) \<Longrightarrow>
   mset (concat (map snd (map (\<lambda>(k, b). if k = key then (k, b @ [t]) else (k, b)) acc))) =
     mset (concat (map snd acc)) + {#t#}"
proof (induction acc)
  case Nil
  then show ?case by simp
next
  case (Cons p acc)
  obtain k b where p: "p = (k, b)" by (cases p)
  show ?case
  proof (cases "k = key")
    case True
    with Cons.prems p have "key \<notin> set (map fst acc)" by auto
    with True p show ?thesis by (simp add: bucket_push_absent)
  next
    case False
    with Cons p show ?thesis by auto
  qed
qed

lemma groupStep_keys:
  "map fst (groupStep nd mode acc t) =
     (if groupKey nd mode t \<in> set (map fst acc) then map fst acc
      else map fst acc @ [groupKey nd mode t])"
  by (simp add: groupStep_def Let_def fst_bucket_push map_of_eq_None_iff del: map_map)

lemma groupStep_map_of:
  "map_of (groupStep nd mode acc t) k =
     (if k = groupKey nd mode t
      then Some ((case map_of acc k of None \<Rightarrow> [] | Some b \<Rightarrow> b) @ [t])
      else map_of acc k)"
  by (auto simp: groupStep_def Let_def map_of_bucket_push map_add_def split: option.splits)

lemma groupStep_distinct:
  "distinct (map fst acc) \<Longrightarrow> distinct (map fst (groupStep nd mode acc t))"
  by (simp add: groupStep_keys)

lemma groupStep_mset:
  assumes "distinct (map fst acc)"
  shows "mset (concat (map snd (groupStep nd mode acc t))) =
           mset (concat (map snd acc)) + {#t#}"
proof (cases "map_of acc (groupKey nd mode t) = None")
  case True
  then have notin: "groupKey nd mode t \<notin> set (map fst acc)"
    by (simp add: map_of_eq_None_iff)
  with assms have d: "distinct (map fst (acc @ [(groupKey nd mode t, [])]))" by simp
  have i: "groupKey nd mode t \<in> set (map fst (acc @ [(groupKey nd mode t, [])]))" by simp
  from mset_bucket_push [OF d i, of t] True show ?thesis
    by (simp add: groupStep_def Let_def)
next
  case False
  then have i: "groupKey nd mode t \<in> set (map fst acc)"
    by (simp add: map_of_eq_None_iff)
  from mset_bucket_push [OF assms i, of t] False show ?thesis
    by (simp add: groupStep_def Let_def)
qed

lemma groupedTransactions_snoc:
  "groupedTransactions nd mode (ts @ [t]) = groupStep nd mode (groupedTransactions nd mode ts) t"
  by (simp add: groupedTransactions_def)

lemma grouped_distinct: "distinct (map fst (groupedTransactions nd mode ts))"
proof (induction ts rule: rev_induct)
  case Nil
  then show ?case by (simp add: groupedTransactions_def)
next
  case (snoc t ts)
  then show ?case by (simp only: groupedTransactions_snoc groupStep_distinct)
qed

lemma filter_key_absent:
  "k \<notin> f ` set ts \<Longrightarrow> filter (\<lambda>u. f u = k) ts = []"
  by (auto simp: filter_empty_conv)

lemma grouped_map_of:
  "map_of (groupedTransactions nd mode ts) k =
     (if k \<in> groupKey nd mode ` set ts
      then Some (filter (\<lambda>t. groupKey nd mode t = k) ts) else None)"
proof (induction ts arbitrary: k rule: rev_induct)
  case Nil
  then show ?case by (simp add: groupedTransactions_def)
next
  case (snoc t ts)
  have fil: "(case map_of (groupedTransactions nd mode ts) k' of None \<Rightarrow> [] | Some b \<Rightarrow> b) =
          filter (\<lambda>u. groupKey nd mode u = k') ts" for k'
    by (cases "k' \<in> groupKey nd mode ` set ts") (simp_all add: snoc filter_key_absent)
  show ?case
  proof (cases "k = groupKey nd mode t")
    case True
    then show ?thesis
      by (simp add: groupedTransactions_snoc groupStep_map_of fil)
  next
    case False
    then have "(k \<in> groupKey nd mode ` set (ts @ [t])) = (k \<in> groupKey nd mode ` set ts)"
      by auto
    with False show ?thesis
      by (simp add: groupedTransactions_snoc groupStep_map_of snoc del: set_append)
  qed
qed

lemma grouped_mset: "mset (concat (map snd (groupedTransactions nd mode ts))) = mset ts"
proof (induction ts rule: rev_induct)
  case Nil
  then show ?case by (simp add: groupedTransactions_def)
next
  case (snoc t ts)
  then show ?case
    by (simp add: groupedTransactions_snoc groupStep_mset [OF grouped_distinct])
qed

lemma grouped_bucket:
  assumes "(k, b) \<in> set (groupedTransactions nd mode ts)"
  shows "b = filter (\<lambda>t. groupKey nd mode t = k) ts \<and> b \<noteq> []"
proof -
  from assms have "map_of (groupedTransactions nd mode ts) k = Some b"
    by (simp add: grouped_distinct)
  then have "k \<in> groupKey nd mode ` set ts" and b: "b = filter (\<lambda>t. groupKey nd mode t = k) ts"
    by (auto simp: grouped_map_of split: if_splits)
  then show ?thesis by (auto simp: filter_empty_conv)
qed

lemma grouped_unique_bucket:
  assumes "t \<in> set ts"
  shows "\<exists>!kb. kb \<in> set (groupedTransactions nd mode ts) \<and> t \<in> set (snd kb)"
proof
  let ?k = "groupKey nd mode t"
  let ?b = "filter (\<lambda>u. groupKey nd mode u = ?k) ts"
  from assms have "map_of (groupedTransactions nd mode ts) ?k = Some ?b"
    by (simp add: grouped_map_of)
  then have "(?k, ?b) \<in> set (groupedTransactions nd mode ts)"
    by (rule map_of_SomeD)
  with assms show "(?k, ?b) \<in> set (groupedTransactions nd mode ts) \<and> t \<in> set (snd (?k, ?b))"
    by simp
next
  fix kb
  assume a: "kb \<in> set (groupedTransactions nd mode ts) \<and> t \<in> set (snd kb)"
  obtain k b where kb: "kb = (k, b)" by (cases kb)
  with a grouped_bucket [of k b nd mode ts]
  have b: "b = filter (\<lambda>u. groupKey nd mode u = k) ts" and "t \<in> set b" by auto
  then have "groupKey nd mode t = k" by auto
  with b kb
  show "kb = (groupKey nd mode t, filter (\<lambda>u. groupKey nd mode u = groupKey nd mode t) ts)"
    by simp
qed

text \<open>
  C2. For every list of transactions and either grouping mode, the buckets of the
  grouping partition the list: the keys of the buckets are distinct; each bucket is not
  empty and holds exactly the transactions of its key, in their order in the list; the
  buckets together hold the transactions of the list with the same multiplicities
  (nothing dropped, nothing duplicated); and each transaction of the list is in exactly
  one bucket.
\<close>

theorem grouping_partitions:
  "distinct (map fst (groupedTransactions nd mode ts))
   \<and> (\<forall>(k, b) \<in> set (groupedTransactions nd mode ts).
        b \<noteq> [] \<and> b = filter (\<lambda>t. groupKey nd mode t = k) ts)
   \<and> mset (concat (map snd (groupedTransactions nd mode ts))) = mset ts
   \<and> (\<forall>t \<in> set ts. \<exists>!kb. kb \<in> set (groupedTransactions nd mode ts) \<and> t \<in> set (snd kb))"
proof -
  have "\<forall>(k, b) \<in> set (groupedTransactions nd mode ts).
        b \<noteq> [] \<and> b = filter (\<lambda>t. groupKey nd mode t = k) ts"
    using grouped_bucket [of _ _ nd mode ts] by blast
  then show ?thesis
    using grouped_distinct [of nd mode ts] grouped_mset [of nd mode ts]
      grouped_unique_bucket [of _ ts nd mode]
    by blast
qed

theorem grouping_partitions_witness:
  "groupedTransactions exampleNewDate weekly exampleTransactions =
     [(str ''2024-01-01'', [exampleTransactions ! 0]),
      (str ''2024-01-08'', [exampleTransactions ! 1, exampleTransactions ! 2])]
   \<and> exampleTransactions ! 2 \<in> set exampleTransactions
   \<and> (\<exists>!kb. kb \<in> set (groupedTransactions exampleNewDate weekly exampleTransactions) \<and>
          exampleTransactions ! 2 \<in> set (snd kb))
   \<and> [exampleTransactions ! 1, exampleTransactions ! 2] =
       filter (\<lambda>t. groupKey exampleNewDate weekly t = str ''2024-01-08'') exampleTransactions
   \<and> mset (concat (map snd (groupedTransactions exampleNewDate weekly exampleTransactions))) =
       mset exampleTransactions"
proof -
  let ?G = "groupedTransactions exampleNewDate weekly exampleTransactions"
  have G: "?G = [(str ''2024-01-01'', [exampleTransactions ! 0]),
      (str ''2024-01-08'', [exampleTransactions ! 1, exampleTransactions ! 2])]"
    by code_simp
  have m: "exampleTransactions ! 2 \<in> set exampleTransactions"
    by (simp add: exampleTransactions_def)
  have i: "(str ''2024-01-08'', [exampleTransactions ! 1, exampleTransactions ! 2]) \<in> set ?G"
    by (simp only: G list.set insert_iff simp_thms)
  note w = grouping_partitions [of exampleNewDate weekly exampleTransactions]
  note w1 = w [THEN conjunct2, THEN conjunct1]
  note ms = w [THEN conjunct2, THEN conjunct2, THEN conjunct1]
  note w2 = w [THEN conjunct2, THEN conjunct2, THEN conjunct2]
  have u: "\<exists>!kb. kb \<in> set ?G \<and> exampleTransactions ! 2 \<in> set (snd kb)"
    by (rule bspec [OF w2 m])
  from bspec [OF w1 i] have b: "[exampleTransactions ! 1, exampleTransactions ! 2] =
       filter (\<lambda>t. groupKey exampleNewDate weekly t = str ''2024-01-08'') exampleTransactions"
    by (simp only: prod.case)
  show ?thesis
    by (intro conjI G m u b ms)
qed

section \<open>Import of empty and header-only files\<close>

lemma handleImport_lines:
  "handleImport pf text prev =
     (if text = [] then (NoAlert, prev)
      else (case importLines text of
              [] \<Rightarrow> (ErrorAlert EmptyOrInvalidFile, prev)
            | headerRow # rows \<Rightarrow>
                if \<not> acceptedHeader headerRow then (ErrorAlert WrongFormat, prev)
                else (SuccessAlert (length (List.map_filter (importRow pf) rows)),
                      filter (\<lambda>t. id_t t \<notin> set (map id_t prev))
                        (List.map_filter (importRow pf) rows) @ prev)))"
  by (simp add: handleImport_def importLines_def acceptedHeader_def Let_def split: list.splits)

lemma importLines_nonempty_text: "importLines text \<noteq> [] \<Longrightarrow> text \<noteq> []"
  by (auto simp: importLines_def trim_def)

lemma import_empty_text: "handleImport pf [] prev = (NoAlert, prev)"
  by (simp add: handleImport_def)

text \<open>
  C5, as the claim states it, fails: the import of the header row alone is not an error;
  it ends with the success notice for 0 transactions.
\<close>

theorem import_header_only_counterexample:
  "handleImport parseFloatDigits headerText exampleTransactions =
     (SuccessAlert 0, exampleTransactions)
   \<and> \<not> isErrorAlert (fst (handleImport parseFloatDigits headerText exampleTransactions))"
proof -
  have l: "importLines headerText = [headerText]"
    by (simp add: importLines_def headerText_def str_def trim_def isWhiteSpace_def)
  have a: "acceptedHeader headerText"
    by (simp add: acceptedHeader_def headerText_def str_def trim_def isWhiteSpace_def
        at_index_def)
  have t: "headerText \<noteq> []" by (simp add: headerText_def str_def)
  have 1: "handleImport parseFloatDigits headerText exampleTransactions =
     (SuccessAlert 0, exampleTransactions)"
    by (simp add: handleImport_lines l a t List.map_filter_simps)
  show ?thesis by (simp add: 1)
qed

text \<open>
  C5, amended. For a file without any non-blank line, the completely empty file among
  them, and for a header-only file, whose single non-blank line is an accepted header, the
  import leaves the store unchanged. The header-only file ends with the success notice
  reporting 0 imported transactions; a file that is not empty but has only blank lines
  raises the error notice for an empty or invalid file.
\<close>

theorem import_empty_or_header_only:
  "(importLines text = [] \<longrightarrow>
      snd (handleImport pf text prev) = prev
    \<and> (text \<noteq> [] \<longrightarrow> handleImport pf text prev = (ErrorAlert EmptyOrInvalidFile, prev)))
   \<and> (importLines text = [headerRow] \<and> acceptedHeader headerRow \<longrightarrow>
        handleImport pf text prev = (SuccessAlert 0, prev))"
proof -
  have "importLines text = [headerRow] \<Longrightarrow> text \<noteq> []"
    using importLines_nonempty_text [of "text"] by simp
  then show ?thesis
    by (auto simp: handleImport_lines List.map_filter_simps)
qed

theorem import_empty_or_header_only_witness:
  "importLines [] = [] \<and> snd (handleImport parseFloatDigits [] exampleTransactions) =
       exampleTransactions
   \<and> [0xA, 0x20, 0xA] \<noteq> [] \<and> importLines [0xA, 0x20, 0xA] = []
   \<and> handleImport parseFloatDigits [0xA, 0x20, 0xA] exampleTransactions =
       (ErrorAlert EmptyOrInvalidFile, exampleTransactions)
   \<and> importLines (headerText @ [0xA]) = [headerText] \<and> acceptedHeader headerText
   \<and> handleImport parseFloatDigits (headerText @ [0xA]) exampleTransactions =
       (SuccessAlert 0, exampleTransactions)"
proof -
  have e: "importLines [] = []"
    by (simp add: importLines_def trim_def)
  have b: "importLines [0xA, 0x20, 0xA] = []"
    by (simp add: importLines_def trim_def isWhiteSpace_def)
  have l: "importLines (headerText @ [0xA]) = [headerText]"
    by (simp add: importLines_def headerText_def str_def trim_def isWhiteSpace_def)
  have a: "acceptedHeader headerText"
    by (simp add: acceptedHeader_def headerText_def str_def trim_def isWhiteSpace_def
        at_index_def)
  note w0 = import_empty_or_header_only
      [of "[]" parseFloatDigits exampleTransactions headerText]
  note w1 = import_empty_or_header_only
      [of "[0xA, 0x20, 0xA]" parseFloatDigits exampleTransactions headerText]
  note w2 = import_empty_or_header_only
      [of "headerText @ [0xA]" parseFloatDigits exampleTransactions headerText]
  from w0 [THEN conjunct1] e
  have r0: "snd (handleImport parseFloatDigits [] exampleTransactions) = exampleTransactions"
    by simp
  from w1 [THEN conjunct1] b
  have r1: "handleImport parseFloatDigits [0xA, 0x20, 0xA] exampleTransactions =
       (ErrorAlert EmptyOrInvalidFile, exampleTransactions)"
    by simp
  from w2 [THEN conjunct2] l a
  have r2: "handleImport parseFloatDigits (headerText @ [0xA]) exampleTransactions =
       (SuccessAlert 0, exampleTransactions)"
    by simp
  show ?thesis using e b l a r0 r1 r2 by simp
qed

lemma importRow_valid:
  assumes "importRow pf row = Some t"
  shows "type t \<in> set TransactionType_values \<and> id_t t \<noteq> [] \<and> date t \<noteq> []"
  using assms
  by (auto simp: importRow_def Let_def falsy_def split: option.splits if_splits)

lemma import_type_valid:
  assumes "t \<in> set (snd (handleImport pf text prev))" and "t \<notin> set prev"
  shows "type t \<in> set TransactionType_values \<and> id_t t \<noteq> [] \<and> date t \<noteq> []"
proof -
  from assms obtain rows where "t \<in> set (List.map_filter (importRow pf) rows)"
    by (auto simp: handleImport_lines split: if_splits list.splits)
  then obtain row where "importRow pf row = Some t"
    by (auto simp: List.map_filter_def)
  then show ?thesis by (rule importRow_valid)
qed

section \<open>Import and the enumerations\<close>

text \<open>
  C6. The import checks the type of a row against the enumeration, so every imported
  transaction has a valid type (\<open>import_type_valid\<close> above), but it does not check the
  payment method: the row below, with the payment method \<open>FOO\<close>, is stored as it is.
\<close>

theorem import_stores_unknown_paymentMethod:
  "handleImport parseFloatDigits unknownMethodText [] =
     (SuccessAlert 1,
      [\<lparr>id_t = str ''9'', description = str ''roses'', amount = 5, type = INCOME,
        paymentMethod = str ''FOO'', date = str ''2024-01-09''\<rparr>])
   \<and> str ''FOO'' \<notin> set PaymentMethod_values"
proof -
  have l: "importLines unknownMethodText = [headerText, str ''9,roses,5,INCOME,FOO,2024-01-09'']"
    by (simp add: importLines_def unknownMethodText_def headerText_def str_def trim_def
        isWhiteSpace_def)
  have a: "acceptedHeader headerText"
    by (simp add: acceptedHeader_def headerText_def str_def trim_def isWhiteSpace_def
        at_index_def)
  have r: "importRow parseFloatDigits (str ''9,roses,5,INCOME,FOO,2024-01-09'') =
      Some \<lparr>id_t = str ''9'', description = str ''roses'', amount = 5, type = INCOME,
        paymentMethod = str ''FOO'', date = str ''2024-01-09''\<rparr>"
    by (simp add: importRow_def Let_def at_index_def falsy_def parseFloatDigits_def
        isDigit_def enum_defs)
  have t: "unknownMethodText \<noteq> []" by (simp add: unknownMethodText_def)
  have f: "str ''FOO'' \<notin> set PaymentMethod_values" by (simp add: enum_defs)
  show ?thesis
    by (simp add: handleImport_lines l a r t f List.map_filter_simps)
qed

theorem import_stores_unknown_paymentMethod_witness:
  "map paymentMethod (snd (handleImport parseFloatDigits unknownMethodText [])) = [str ''FOO'']
   \<and> \<not> list_all isTransaction (snd (handleImport parseFloatDigits unknownMethodText []))"
proof -
  note w = import_stores_unknown_paymentMethod
  from w have s: "snd (handleImport parseFloatDigits unknownMethodText []) =
      [\<lparr>id_t = str ''9'', description = str ''roses'', amount = 5, type = INCOME,
        paymentMethod = str ''FOO'', date = str ''2024-01-09''\<rparr>]"
    by simp
  from w have f: "str ''FOO'' \<notin> set PaymentMethod_values" by (rule conjunct2)
  show ?thesis using f by (simp add: s isTransaction_def)
qed

section \<open>Double arithmetic on whole numbers\<close>

lemma roundHalfEven_of_int: "roundHalfEven (of_int k) = k"
  by (simp add: roundHalfEven_def)

lemma pow2_pos: "0 < pow2 e"
  by (simp add: pow2_def)

lemma binaryExponent_of_int:
  assumes "0 < a"
  shows "binaryExponent (of_int a) = bitlen a - 1"
proof -
  have "(2::int) ^ nat (bitlen a - 1) \<le> a" using bitlen_bounds [OF assms] by simp
  then have "(of_int ((2::int) ^ nat (bitlen a - 1)) :: rat) \<le> of_int a"
    by (simp only: of_int_le_iff)
  moreover have "0 \<le> bitlen a - 1" using assms by (simp add: bitlen_alt_def)
  ultimately have "pow2 (bitlen a - 1) \<le> of_int a" by (simp add: pow2_def)
  then show ?thesis
    by (simp add: binaryExponent_def compute_bitlen [of 1])
qed

lemma bitlen_le_54:
  assumes "0 < a" and "a \<le> 2 ^ 53"
  shows "bitlen a - 1 \<le> 53" and "bitlen a - 1 = 53 \<Longrightarrow> a = 2 ^ 53"
proof -
  have lo: "(2::int) ^ nat (bitlen a - 1) \<le> a" using bitlen_bounds [OF assms(1)] by simp
  show "bitlen a - 1 \<le> 53"
  proof (rule ccontr)
    assume "\<not> bitlen a - 1 \<le> 53"
    then have "54 \<le> nat (bitlen a - 1)" by simp
    then have "(2::int) ^ 54 \<le> 2 ^ nat (bitlen a - 1)"
      by (intro power_increasing) simp_all
    with lo assms(2) show False by simp
  qed
  assume "bitlen a - 1 = 53"
  with lo have "(2::int) ^ 53 \<le> a" by simp
  with assms(2) show "a = 2 ^ 53" by simp
qed

lemma roundDouble_of_int:
  assumes "\<bar>z\<bar> \<le> 2 ^ 53"
  shows "roundDouble (of_int z) = of_int z"
proof (cases "z = 0")
  case True
  then show ?thesis by (simp add: roundDouble_def)
next
  case False
  define a where "a = \<bar>z\<bar>"
  have a: "0 < a" "a \<le> 2 ^ 53" using False assms by (simp_all add: a_def)
  have abs: "\<bar>of_int z :: rat\<bar> = of_int a" by (simp add: a_def)
  define e where "e = max (bitlen a - 1 - 52) (- 1074)"
  have nn: "0 \<le> bitlen a - 1" using a(1) by (simp add: bitlen_alt_def)
  have e: "e = bitlen a - 1 - 52" using nn by (simp add: e_def)
  have fl: "roundDouble (of_int z) = of_int (roundHalfEven (of_int z / pow2 e)) * pow2 e"
    using False by (simp add: roundDouble_def abs binaryExponent_of_int [OF a(1)] e_def Let_def)
  have "\<exists>k. (of_int z :: rat) / pow2 e = of_int k"
  proof (cases "e \<le> 0")
    case True
    then have "(of_int z :: rat) / pow2 e = of_int (z * 2 ^ nat (- e))"
      by (cases "e = 0") (simp_all add: pow2_def)
    then show ?thesis ..
  next
    case False
    with e bitlen_le_54 (1) [OF a] have e1: "e = 1" by simp
    with e have "bitlen a - 1 = 53" by simp
    then have "a = 2 ^ 53" by (rule bitlen_le_54 (2) [OF a])
    then have "z = 2 ^ 53 \<or> z = - (2 ^ 53)" unfolding a_def by linarith
    then have "(of_int z :: rat) / pow2 e = of_int (z div 2)"
      using e1 by (auto simp: pow2_def)
    then show ?thesis ..
  qed
  then obtain k where k: "(of_int z :: rat) / pow2 e = of_int k" ..
  then have "of_int k * pow2 e = (of_int z :: rat)"
    using pow2_pos [of e] by (simp add: field_simps)
  then show ?thesis by (simp add: fl k roundHalfEven_of_int)
qed

lemma roundDouble_whole: "x \<in> \<int> \<Longrightarrow> \<bar>x\<bar> \<le> 2 ^ 53 \<Longrightarrow> roundDouble x = x"
proof -
  assume "x \<in> \<int>" and b: "\<bar>x\<bar> \<le> 2 ^ 53"
  then obtain z where z: "x = of_int z" by (auto elim: Ints_cases)
  with b have "(of_int \<bar>z\<bar> :: rat) \<le> of_int (2 ^ 53)" by simp
  then have "\<bar>z\<bar> \<le> 2 ^ 53" by (simp only: of_int_le_iff)
  then show ?thesis unfolding z by (rule roundDouble_of_int)
qed

lemma plus_d_whole:
  "a \<in> \<int> \<Longrightarrow> b \<in> \<int> \<Longrightarrow> \<bar>a + b\<bar> \<le> 2 ^ 53 \<Longrightarrow> plus_d a b = a + b"
  by (simp add: plus_d_def roundDouble_whole)

lemma minus_d_whole:
  "a \<in> \<int> \<Longrightarrow> b \<in> \<int> \<Longrightarrow> \<bar>a - b\<bar> \<le> 2 ^ 53 \<Longrightarrow> minus_d a b = a - b"
  by (simp add: minus_d_def roundDouble_whole)

text \<open>A left fold with the addition of numbers is the exact sum on such amounts.\<close>

lemma foldl_plus_d_whole:
  assumes "list_all (\<lambda>a. a \<in> \<int>) as" and "s \<in> \<int>"
    and "\<bar>s\<bar> + sum_list (map abs as) \<le> 2 ^ 53"
  shows "foldl plus_d s as = s + sum_list as"
  using assms
proof (induction as arbitrary: s)
  case Nil
  then show ?case by simp
next
  case (Cons a as)
  have "sum_list (map abs (a # as)) = \<bar>a\<bar> + sum_list (map abs as)" by simp
  with Cons.prems(3) abs_triangle_ineq [of s a]
  have b: "\<bar>s + a\<bar> + sum_list (map abs as) \<le> 2 ^ 53" by linarith
  have nn: "0 \<le> sum_list (map abs as)" by (rule sum_list_nonneg) auto
  with b have "\<bar>s + a\<bar> \<le> 2 ^ 53" by linarith
  with Cons.prems have p: "plus_d s a = s + a" by (simp add: plus_d_whole)
  have "foldl plus_d (s + a) as = (s + a) + sum_list as"
    using Cons.prems b by (intro Cons.IH) simp_all
  with p show ?case by simp
qed


section \<open>Balance consistency\<close>

text \<open>Each accumulator is the sum, in the order of the list, of the amounts of its kind.\<close>

lemma fold_balanceStep_cashInc:
  "cashInc (fold balanceStep ts acc) =
     foldl plus_d (cashInc acc)
       (map amount (filter (\<lambda>t. paymentMethod t = CASH \<and> type t = INCOME) ts))"
  by (induction ts arbitrary: acc) (simp_all add: balanceStep_def)

lemma fold_balanceStep_cashExp:
  "cashExp (fold balanceStep ts acc) =
     foldl plus_d (cashExp acc)
       (map amount (filter (\<lambda>t. paymentMethod t = CASH \<and> type t \<noteq> INCOME) ts))"
  by (induction ts arbitrary: acc) (simp_all add: balanceStep_def)

lemma fold_balanceStep_bankInc:
  "bankInc (fold balanceStep ts acc) =
     foldl plus_d (bankInc acc)
       (map amount (filter (\<lambda>t. paymentMethod t \<noteq> CASH \<and> type t = INCOME) ts))"
  by (induction ts arbitrary: acc) (simp_all add: balanceStep_def)

lemma fold_balanceStep_bankExp:
  "bankExp (fold balanceStep ts acc) =
     foldl plus_d (bankExp acc)
       (map amount (filter (\<lambda>t. paymentMethod t \<noteq> CASH \<and> type t \<noteq> INCOME) ts))"
  by (induction ts arbitrary: acc) (simp_all add: balanceStep_def)

lemma abs_sum_filter_le:
  "sum_list (map abs (map amount (filter P ts))) \<le> sum_list (map abs (map amount ts))"
  by (induction ts) (auto intro: order_trans)

lemma four_way_abs_sum:
  "sum_list (map abs (map amount (filter (\<lambda>t. p t \<and> q t) ts))) +
   sum_list (map abs (map amount (filter (\<lambda>t. p t \<and> \<not> q t) ts))) +
   sum_list (map abs (map amount (filter (\<lambda>t. \<not> p t \<and> q t) ts))) +
   sum_list (map abs (map amount (filter (\<lambda>t. \<not> p t \<and> \<not> q t) ts))) =
   sum_list (map abs (map amount ts))"
  by (induction ts) auto

lemma whole_sum_filter:
  "list_all (\<lambda>a. a \<in> \<int>) (map amount ts) \<Longrightarrow> sum_list (map amount (filter P ts)) \<in> \<int>"
  by (induction ts) auto

lemma whole_filter:
  "list_all (\<lambda>a. a \<in> \<int>) (map amount ts) \<Longrightarrow>
   list_all (\<lambda>a. a \<in> \<int>) (map amount (filter P ts))"
  by (induction ts) auto

lemma foldl_plus_d_filter:
  assumes "wholeAmounts (map amount ts)"
  shows "foldl plus_d 0 (map amount (filter P ts)) = sum_list (map amount (filter P ts))"
proof -
  from assms have w: "list_all (\<lambda>a. a \<in> \<int>) (map amount ts)"
    and b: "sum_list (map abs (map amount ts)) \<le> 2 ^ 53"
    by (simp_all add: wholeAmounts_def)
  from b abs_sum_filter_le [of P ts]
  have "\<bar>0::rat\<bar> + sum_list (map abs (map amount (filter P ts))) \<le> 2 ^ 53" by simp
  from foldl_plus_d_whole [OF whole_filter [OF w] _ this] show ?thesis by simp
qed

lemma signedSum_split_type:
  "list_all isTransaction ts \<Longrightarrow>
   signedSum ts =
     sum_list (map amount (filter (\<lambda>t. type t = INCOME) ts)) -
     sum_list (map amount (filter (\<lambda>t. type t \<noteq> INCOME) ts))"
  by (induction ts)
     (auto simp: signedSum_def signedAmount_def isTransaction_def
        TransactionType_values_def)

lemma signedSum_partition:
  "signedSum ts = signedSum (filter P ts) + signedSum (filter (\<lambda>t. \<not> P t) ts)"
  by (induction ts) (simp_all add: signedSum_def)

lemma balances_whole:
  assumes "wholeAmounts (map amount ts)"
  defines "CI \<equiv> sum_list (map amount (filter (\<lambda>t. paymentMethod t = CASH \<and> type t = INCOME) ts))"
    and "CE \<equiv> sum_list (map amount (filter (\<lambda>t. paymentMethod t = CASH \<and> type t \<noteq> INCOME) ts))"
    and "BI \<equiv> sum_list (map amount (filter (\<lambda>t. paymentMethod t \<noteq> CASH \<and> type t = INCOME) ts))"
    and "BE \<equiv> sum_list (map amount (filter (\<lambda>t. paymentMethod t \<noteq> CASH \<and> type t \<noteq> INCOME) ts))"
  shows "cashBalance (balances ts) = CI - CE"
    and "bankBalance (balances ts) = BI - BE"
    and "totalBalance (balances ts) = (CI + BI) - (CE + BE)"
    and "plus_d (CI - CE) (BI - BE) = (CI - CE) + (BI - BE)"
proof -
  from assms(1) have w: "list_all (\<lambda>a. a \<in> \<int>) (map amount ts)"
    and b: "sum_list (map abs (map amount ts)) \<le> 2 ^ 53"
    by (simp_all add: wholeAmounts_def)
  have ints: "CI \<in> \<int>" "CE \<in> \<int>" "BI \<in> \<int>" "BE \<in> \<int>"
    unfolding CI_def CE_def BI_def BE_def by (rule whole_sum_filter [OF w])+
  let ?A = "\<lambda>P. sum_list (map abs (map amount (filter P ts)))"
  have le: "\<bar>CI\<bar> \<le> ?A (\<lambda>t. paymentMethod t = CASH \<and> type t = INCOME)"
    "\<bar>CE\<bar> \<le> ?A (\<lambda>t. paymentMethod t = CASH \<and> type t \<noteq> INCOME)"
    "\<bar>BI\<bar> \<le> ?A (\<lambda>t. paymentMethod t \<noteq> CASH \<and> type t = INCOME)"
    "\<bar>BE\<bar> \<le> ?A (\<lambda>t. paymentMethod t \<noteq> CASH \<and> type t \<noteq> INCOME)"
    unfolding CI_def CE_def BI_def BE_def by (rule sum_list_abs)+
  have nn: "0 \<le> ?A P" for P by (rule sum_list_nonneg) auto
  note four = four_way_abs_sum [of "\<lambda>t. paymentMethod t = CASH" "\<lambda>t. type t = INCOME" ts]
  have tot: "\<bar>CI\<bar> + \<bar>CE\<bar> + \<bar>BI\<bar> + \<bar>BE\<bar> \<le> 2 ^ 53"
    using le four b by linarith
  have acc: "cashInc (fold balanceStep ts \<lparr>cashInc = 0, cashExp = 0, bankInc = 0, bankExp = 0\<rparr>) = CI"
    "cashExp (fold balanceStep ts \<lparr>cashInc = 0, cashExp = 0, bankInc = 0, bankExp = 0\<rparr>) = CE"
    "bankInc (fold balanceStep ts \<lparr>cashInc = 0, cashExp = 0, bankInc = 0, bankExp = 0\<rparr>) = BI"
    "bankExp (fold balanceStep ts \<lparr>cashInc = 0, cashExp = 0, bankInc = 0, bankExp = 0\<rparr>) = BE"
    unfolding CI_def CE_def BI_def BE_def
    by (simp_all add: fold_balanceStep_cashInc fold_balanceStep_cashExp fold_balanceStep_bankInc
        fold_balanceStep_bankExp foldl_plus_d_filter [OF assms(1)])
  have b1: "\<bar>CI - CE\<bar> \<le> 2 ^ 53" and b2: "\<bar>BI - BE\<bar> \<le> 2 ^ 53"
    and b3: "\<bar>CI + BI\<bar> \<le> 2 ^ 53" and b4: "\<bar>CE + BE\<bar> \<le> 2 ^ 53"
    and b5: "\<bar>(CI + BI) - (CE + BE)\<bar> \<le> 2 ^ 53"
    and b6: "\<bar>(CI - CE) + (BI - BE)\<bar> \<le> 2 ^ 53"
    using tot by linarith+
  have 1: "minus_d CI CE = CI - CE"
    by (rule minus_d_whole [OF ints(1) ints(2) b1])
  have 2: "minus_d BI BE = BI - BE"
    by (rule minus_d_whole [OF ints(3) ints(4) b2])
  have 3: "plus_d CI BI = CI + BI"
    by (rule plus_d_whole [OF ints(1) ints(3) b3])
  have 4: "plus_d CE BE = CE + BE"
    by (rule plus_d_whole [OF ints(2) ints(4) b4])
  have 5: "minus_d (CI + BI) (CE + BE) = (CI + BI) - (CE + BE)"
    using ints by (intro minus_d_whole b5) simp_all
  show "cashBalance (balances ts) = CI - CE"
    by (simp add: balances_def Let_def acc 1)
  show "bankBalance (balances ts) = BI - BE"
    by (simp add: balances_def Let_def acc 2)
  show "totalBalance (balances ts) = (CI + BI) - (CE + BE)"
    by (simp add: balances_def Let_def acc 3 4 5)
  show "plus_d (CI - CE) (BI - BE) = (CI - CE) + (BI - BE)"
    using ints by (intro plus_d_whole b6) simp_all
qed

lemma cent_doubles:
  "roundDouble (1999 / 100) = 5626684784446013 / 281474976710656"
  "roundDouble (501 / 100) = 2820379266640773 / 562949953421312"
  "roundDouble (249 / 10) = 3504363460047667 / 140737488355328"
  by code_simp+

lemma cent_sums:
  "plus_d 0 (5626684784446013 / 281474976710656) = 5626684784446013 / 281474976710656"
  "plus_d 0 (2820379266640773 / 562949953421312) = 2820379266640773 / 562949953421312"
  "plus_d 0 (3504363460047667 / 140737488355328) = 3504363460047667 / 140737488355328"
  "minus_d (5626684784446013 / 281474976710656) (3504363460047667 / 140737488355328) =
     - (1382042135649321 / 281474976710656)"
  "minus_d (2820379266640773 / 562949953421312) 0 = 2820379266640773 / 562949953421312"
  "plus_d (5626684784446013 / 281474976710656) (2820379266640773 / 562949953421312) = 25"
  "plus_d (3504363460047667 / 140737488355328) 0 = 3504363460047667 / 140737488355328"
  "minus_d 25 (3504363460047667 / 140737488355328) = 14073748835533 / 140737488355328"
  "plus_d (- (1382042135649321 / 281474976710656)) (2820379266640773 / 562949953421312) =
     56294995342131 / 562949953421312"
  by code_simp+

lemma balances_cent:
  "balances centTransactions =
     \<lparr>cashBalance = - (1382042135649321 / 281474976710656),
      bankBalance = 2820379266640773 / 562949953421312,
      totalBalance = 14073748835533 / 140737488355328\<rparr>"
  by (simp add: balances_def balanceStep_def centTransactions_def cent_doubles cent_sums
      enum_defs Let_def)


text \<open>
  C1, as the claim states it, fails: the balances are computed in double arithmetic, and
  for 19.99 income in cash, 5.01 income by bank and 24.90 expense in cash the total
  balance is 0.10000000000000142 while the cash and the bank balance add up to
  0.09999999999999964; the total balance is not the sum of the signed amounts either.
\<close>

theorem balance_cents_counterexample:
  "list_all isTransaction centTransactions
   \<and> totalBalance (balances centTransactions) = 14073748835533 / 140737488355328
   \<and> cashBalance (balances centTransactions) + bankBalance (balances centTransactions) =
       56294995342131 / 562949953421312
   \<and> plus_d (cashBalance (balances centTransactions)) (bankBalance (balances centTransactions)) =
       56294995342131 / 562949953421312
   \<and> totalBalance (balances centTransactions) \<noteq>
       cashBalance (balances centTransactions) + bankBalance (balances centTransactions)
   \<and> totalBalance (balances centTransactions) \<noteq> signedSum centTransactions"
proof -
  have t: "list_all isTransaction centTransactions"
    by (simp add: centTransactions_def isTransaction_def enum_defs)
  have s: "signedSum centTransactions = 56294995342131 / 562949953421312"
    by (simp add: signedSum_def signedAmount_def centTransactions_def cent_doubles enum_defs)
  show ?thesis
    by (simp add: t s balances_cent cent_sums)
qed

text \<open>
  C1, amended. For every list of transactions (values of the type \<open>Transaction\<close>) whose
  amounts are whole numbers with absolute values adding up to at most \<open>2^53\<close>, the cash
  balance is the sum of the signed amounts of the transactions paid in cash, the bank
  balance is the sum of the signed amounts of the transactions paid by bank, the total
  balance is their sum, exactly and as the code adds them, and the total balance is the
  sum of the signed amounts of all transactions.
\<close>

theorem balance_consistency_whole_amounts:
  assumes "list_all isTransaction ts" and "wholeAmounts (map amount ts)"
  shows "cashBalance (balances ts) = signedSum (filter (\<lambda>t. paymentMethod t = CASH) ts)
       \<and> bankBalance (balances ts) = signedSum (filter (\<lambda>t. paymentMethod t = BANK) ts)
       \<and> totalBalance (balances ts) = cashBalance (balances ts) + bankBalance (balances ts)
       \<and> totalBalance (balances ts) =
           plus_d (cashBalance (balances ts)) (bankBalance (balances ts))
       \<and> totalBalance (balances ts) = signedSum ts"
proof -
  have eq: "filter (\<lambda>t. paymentMethod t = BANK) ts = filter (\<lambda>t. paymentMethod t \<noteq> CASH) ts"
    using assms(1) enum_values_distinct(2)
    by (intro filter_cong refl)
       (auto simp: list_all_iff isTransaction_def PaymentMethod_values_def)
  have c: "list_all isTransaction (filter (\<lambda>t. paymentMethod t = CASH) ts)"
    and b: "list_all isTransaction (filter (\<lambda>t. paymentMethod t \<noteq> CASH) ts)"
    using assms(1) by (simp_all add: list_all_iff)
  note bw = balances_whole [OF assms(2)]
  have cash: "cashBalance (balances ts) = signedSum (filter (\<lambda>t. paymentMethod t = CASH) ts)"
    by (simp add: bw(1) signedSum_split_type [OF c] conj_commute)
  have bank: "bankBalance (balances ts) = signedSum (filter (\<lambda>t. paymentMethod t = BANK) ts)"
    by (simp add: bw(2) eq signedSum_split_type [OF b] conj_commute)
  have sum: "totalBalance (balances ts) = cashBalance (balances ts) + bankBalance (balances ts)"
    by (simp add: bw)
  have total: "totalBalance (balances ts) = signedSum ts"
    using signedSum_partition [of ts "\<lambda>t. paymentMethod t = CASH"]
    by (simp add: sum cash bank eq)
  have rounded: "totalBalance (balances ts) =
      plus_d (cashBalance (balances ts)) (bankBalance (balances ts))"
    by (simp add: bw)
  show ?thesis using cash bank sum rounded total by (intro conjI)
qed


theorem balance_consistency_whole_amounts_witness:
  "list_all isTransaction exampleTransactions
   \<and> wholeAmounts (map amount exampleTransactions)
   \<and> cashBalance (balances exampleTransactions) = 60
   \<and> bankBalance (balances exampleTransactions) = 50
   \<and> totalBalance (balances exampleTransactions) = 110
   \<and> signedSum exampleTransactions = 110"
proof -
  have h: "list_all isTransaction exampleTransactions"
    by (simp add: exampleTransactions_def isTransaction_def enum_defs)
  have w: "wholeAmounts (map amount exampleTransactions)"
    by (simp add: exampleTransactions_def wholeAmounts_def)
  have c: "signedSum (filter (\<lambda>t. paymentMethod t = CASH) exampleTransactions) = 60"
    by (simp add: exampleTransactions_def signedSum_def signedAmount_def enum_defs)
  have b: "signedSum (filter (\<lambda>t. paymentMethod t = BANK) exampleTransactions) = 50"
    by (simp add: exampleTransactions_def signedSum_def signedAmount_def enum_defs)
  from balance_consistency_whole_amounts [OF h w] c b h w show ?thesis by simp
qed

section \<open>Settling a debt\<close>

lemma totalUnpaidDebts_foldl:
  "totalUnpaidDebts ds = foldl plus_d 0 (map amount_d (filter (\<lambda>d. status d = UNPAID) ds))"
  by (simp add: totalUnpaidDebts_def foldl_map)

lemma totalUnpaidDebts_whole:
  assumes "wholeAmounts (map amount_d (filter (\<lambda>d. status d = UNPAID) ds))"
  shows "totalUnpaidDebts ds = sum_list (map amount_d (filter (\<lambda>d. status d = UNPAID) ds))"
proof -
  from assms have "\<bar>0::rat\<bar> +
      sum_list (map abs (map amount_d (filter (\<lambda>d. status d = UNPAID) ds))) \<le> 2 ^ 53"
    by (simp add: wholeAmounts_def)
  from foldl_plus_d_whole [OF _ _ this] assms show ?thesis
    by (simp add: totalUnpaidDebts_foldl wholeAmounts_def)
qed

lemma wholeAmounts_removeAll:
  "wholeAmounts (map f xs) \<Longrightarrow> wholeAmounts (map f (removeAll x xs))"
proof -
  assume w: "wholeAmounts (map f xs)"
  have "sum_list (map abs (map f (removeAll x xs))) \<le> sum_list (map abs (map f xs))"
    by (induction xs) (auto intro: order_trans)
  moreover have "list_all (\<lambda>a. a \<in> \<int>) (map f (removeAll x xs))"
    using w by (auto simp: wholeAmounts_def list_all_iff)
  ultimately show ?thesis using w by (simp add: wholeAmounts_def)
qed

lemma whole_sum_list: "list_all (\<lambda>a. a \<in> \<int>) as \<Longrightarrow> sum_list as \<in> \<int>"
  by (induction as) auto

lemma mark_paid_absent:
  "i \<notin> set (map id_d ds) \<Longrightarrow>
   map (\<lambda>d. if id_d d = i then d\<lparr>status := PAID\<rparr> else d) ds = ds"
  by (induction ds) auto

lemma find_Some_id: "find (\<lambda>d. id_d d = i) ds = Some x \<Longrightarrow> id_d x = i \<and> x \<in> set ds"
  by (induction ds) (auto split: if_splits)

lemma unpaid_after_mark:
  assumes "status x = UNPAID"
  shows "filter (\<lambda>d. status d = UNPAID) (map (\<lambda>d. if d = x then d\<lparr>status := PAID\<rparr> else d) ds) =
         filter (\<lambda>d. status d = UNPAID) (removeAll x ds)"
  using assms by (induction ds) auto

lemma totalUnpaidDebts_after:
  assumes "status x = UNPAID"
  shows "totalUnpaidDebts (map (\<lambda>d. if d = x then d\<lparr>status := PAID\<rparr> else d) ds) =
         totalUnpaidDebts (removeAll x ds)"
  by (simp add: totalUnpaidDebts_def unpaid_after_mark [OF assms])

lemma totalUnpaidDebts_removeAll_whole:
  assumes "distinct ds" and "x \<in> set ds" and "status x = UNPAID"
    and "wholeAmounts (map amount_d (filter (\<lambda>d. status d = UNPAID) ds))"
  shows "totalUnpaidDebts (removeAll x ds) = totalUnpaidDebts ds - amount_d x"
    and "totalUnpaidDebts (removeAll x ds) = minus_d (totalUnpaidDebts ds) (amount_d x)"
proof -
  let ?u = "filter (\<lambda>d. status d = UNPAID) ds"
  have r: "filter (\<lambda>d. status d = UNPAID) (removeAll x ds) = removeAll x ?u"
    by (induction ds) auto
  have d: "distinct ?u" and m: "x \<in> set ?u" using assms(1-3) by simp_all
  have w': "wholeAmounts (map amount_d (removeAll x ?u))"
    using assms(4) by (rule wholeAmounts_removeAll)
  have before: "totalUnpaidDebts ds = sum_list (map amount_d ?u)"
    by (rule totalUnpaidDebts_whole [OF assms(4)])
  have after: "totalUnpaidDebts (removeAll x ds) = sum_list (map amount_d (removeAll x ?u))"
    using totalUnpaidDebts_whole [of "removeAll x ds"] w' by (simp add: r)
  have split: "sum_list (map amount_d ?u) = amount_d x + sum_list (map amount_d (removeAll x ?u))"
    using sum_list_map_remove1 [OF m, of amount_d] d
    by (simp add: distinct_remove1_removeAll)
  show e: "totalUnpaidDebts (removeAll x ds) = totalUnpaidDebts ds - amount_d x"
    by (simp add: before after split)
  have i1: "totalUnpaidDebts ds \<in> \<int>"
    using assms(4) by (simp add: before whole_sum_list wholeAmounts_def)
  have i2: "amount_d x \<in> \<int>"
    using assms(4) m by (auto simp: wholeAmounts_def list_all_iff)
  have "\<bar>sum_list (map amount_d (removeAll x ?u))\<bar> \<le>
        sum_list (map abs (map amount_d (removeAll x ?u)))"
    by (rule sum_list_abs)
  with w' have "\<bar>totalUnpaidDebts ds - amount_d x\<bar> \<le> 2 ^ 53"
    by (simp add: before split wholeAmounts_def)
  from minus_d_whole [OF i1 i2 this] e
  show "totalUnpaidDebts (removeAll x ds) = minus_d (totalUnpaidDebts ds) (amount_d x)"
    by simp
qed

text \<open>
  C4, amended. With no settlement pending, outside the accountant mode and with unique
  debt ids: settling an unpaid debt that is found adds exactly one transaction, of type
  \<open>INCOME\<close>, with the debt's amount and the chosen payment method, sets the status of
  that debt (and of no other) to \<open>PAID\<close>, and leaves as total of the unpaid debts the
  total of the other debts; when the amounts of the unpaid debts are whole numbers with
  absolute values adding up to at most \<open>2^53\<close>, that is the former total lowered by
  exactly the debt's amount. Settling a debt that is not found changes neither the
  transactions nor the debts.
\<close>

theorem settle_debt_effects:
  assumes "debtToSettle s = None" and "\<not> isAccountantMode"
    and "distinct (map id_d (debts s))"
  shows "(find (\<lambda>d. id_d d = debtId) (debts s) = None \<longrightarrow>
            transactions (settleDebt isAccountantMode nowId nowIso debtId m s) = transactions s
          \<and> debts (settleDebt isAccountantMode nowId nowIso debtId m s) = debts s)
       \<and> (\<forall>x. find (\<lambda>d. id_d d = debtId) (debts s) = Some x \<and> status x = UNPAID \<longrightarrow>
            (\<exists>newTransaction.
               transactions (settleDebt isAccountantMode nowId nowIso debtId m s) =
                 newTransaction # transactions s
             \<and> type newTransaction = INCOME
             \<and> amount newTransaction = amount_d x
             \<and> paymentMethod newTransaction = m)
          \<and> debts (settleDebt isAccountantMode nowId nowIso debtId m s) =
               map (\<lambda>d. if d = x then d\<lparr>status := PAID\<rparr> else d) (debts s)
          \<and> totalUnpaidDebts (debts (settleDebt isAccountantMode nowId nowIso debtId m s)) =
               totalUnpaidDebts (removeAll x (debts s))
          \<and> (wholeAmounts (map amount_d (filter (\<lambda>d. status d = UNPAID) (debts s))) \<longrightarrow>
                totalUnpaidDebts (debts (settleDebt isAccountantMode nowId nowIso debtId m s)) =
                  totalUnpaidDebts (debts s) - amount_d x
              \<and> totalUnpaidDebts (debts (settleDebt isAccountantMode nowId nowIso debtId m s)) =
                  minus_d (totalUnpaidDebts (debts s)) (amount_d x)))"
proof (intro conjI impI allI)
  assume "find (\<lambda>d. id_d d = debtId) (debts s) = None"
  with assms show "transactions (settleDebt isAccountantMode nowId nowIso debtId m s) = transactions s"
    and "debts (settleDebt isAccountantMode nowId nowIso debtId m s) = debts s"
    by (simp_all add: settleDebt_def handleSettleDebtRequest_def handleConfirmSettleDebt_def)
next
  fix x assume fx: "find (\<lambda>d. id_d d = debtId) (debts s) = Some x \<and> status x = UNPAID"
  then have idx: "id_d x = debtId" and xin: "x \<in> set (debts s)" using find_Some_id by blast+
  have dd: "distinct (debts s)" using assms(3) by (simp add: distinct_map)
  have st: "settleDebt isAccountantMode nowId nowIso debtId m s =
     s\<lparr>transactions := \<lparr>id_t = nowId, description = settleDescription x, amount = amount_d x,
                  type = INCOME, paymentMethod = m, date = nowIso\<rparr> # transactions s,
       debts := map (\<lambda>d. if id_d d = debtId then d\<lparr>status := PAID\<rparr> else d) (debts s),
       debtToSettle := None\<rparr>"
    using assms fx idx
    by (simp add: settleDebt_def handleSettleDebtRequest_def handleConfirmSettleDebt_def Let_def)
  show "\<exists>newTransaction.
               transactions (settleDebt isAccountantMode nowId nowIso debtId m s) =
                 newTransaction # transactions s
             \<and> type newTransaction = INCOME
             \<and> amount newTransaction = amount_d x
             \<and> paymentMethod newTransaction = m"
    by (simp add: st)
  have "\<And>d. d \<in> set (debts s) \<Longrightarrow> (id_d d = debtId) = (d = x)"
    using assms(3) xin idx by (metis distinct_map inj_onD)
  then show ds: "debts (settleDebt isAccountantMode nowId nowIso debtId m s) =
               map (\<lambda>d. if d = x then d\<lparr>status := PAID\<rparr> else d) (debts s)"
    by (simp add: st cong: map_cong)
  from fx have u: "status x = UNPAID" by simp
  show af: "totalUnpaidDebts (debts (settleDebt isAccountantMode nowId nowIso debtId m s)) =
               totalUnpaidDebts (removeAll x (debts s))"
    by (simp only: ds totalUnpaidDebts_after [OF u])
  assume w: "wholeAmounts (map amount_d (filter (\<lambda>d. status d = UNPAID) (debts s)))"
  show "totalUnpaidDebts (debts (settleDebt isAccountantMode nowId nowIso debtId m s)) =
                  totalUnpaidDebts (debts s) - amount_d x"
    by (simp only: af totalUnpaidDebts_removeAll_whole(1) [OF dd xin u w])
  show "totalUnpaidDebts (debts (settleDebt isAccountantMode nowId nowIso debtId m s)) =
                  minus_d (totalUnpaidDebts (debts s)) (amount_d x)"
    by (simp only: af totalUnpaidDebts_removeAll_whole(2) [OF dd xin u w])
qed

theorem settle_debt_effects_witness:
  "debtToSettle exampleState = None
   \<and> distinct (map id_d (debts exampleState))
   \<and> find (\<lambda>d. id_d d = str ''debt-9'') (debts exampleState) = None
   \<and> transactions (settleDebt False (str ''1704700000000'') (str ''2024-01-08T07:46:40.000Z'')
         (str ''debt-9'') BANK exampleState) = exampleTransactions
   \<and> find (\<lambda>d. id_d d = str ''debt-2'') (debts exampleState) = Some (exampleDebts ! 1)
   \<and> status (exampleDebts ! 1) = UNPAID
   \<and> wholeAmounts (map amount_d (filter (\<lambda>d. status d = UNPAID) (debts exampleState)))
   \<and> totalUnpaidDebts (debts exampleState) = 330
   \<and> totalUnpaidDebts (debts (settleDebt False (str ''1704700000000'')
         (str ''2024-01-08T07:46:40.000Z'') (str ''debt-2'') BANK exampleState)) = 250"
proof -
  have h1: "debtToSettle exampleState = None" by (simp add: exampleState_def)
  have h2: "\<not> False" by simp
  have h3: "distinct (map id_d (debts exampleState))"
    by (simp add: exampleState_def exampleDebts_def str_def)
  have n: "find (\<lambda>d. id_d d = str ''debt-9'') (debts exampleState) = None"
    by (simp add: exampleState_def exampleDebts_def str_def)
  have f: "find (\<lambda>d. id_d d = str ''debt-2'') (debts exampleState) = Some (exampleDebts ! 1)"
    by (simp add: exampleState_def exampleDebts_def str_def)
  have u: "status (exampleDebts ! 1) = UNPAID" by (simp add: exampleDebts_def)
  have a: "amount_d (exampleDebts ! 1) = 80" by (simp add: exampleDebts_def)
  have w: "wholeAmounts (map amount_d (filter (\<lambda>d. status d = UNPAID) (debts exampleState)))"
    by (simp add: exampleState_def exampleDebts_def wholeAmounts_def)
  have t: "totalUnpaidDebts (debts exampleState) = 330"
    using totalUnpaidDebts_whole [OF w] by (simp add: exampleState_def exampleDebts_def)
  have tr: "transactions exampleState = exampleTransactions" by (simp add: exampleState_def)
  note w1 = settle_debt_effects [OF h1 h2 h3, of "str ''debt-9''" "str ''1704700000000''"
      "str ''2024-01-08T07:46:40.000Z''" BANK]
  note w2 = settle_debt_effects [OF h1 h2 h3, of "str ''debt-2''" "str ''1704700000000''"
      "str ''2024-01-08T07:46:40.000Z''" BANK]
  from w1 n have "transactions (settleDebt False (str ''1704700000000'')
      (str ''2024-01-08T07:46:40.000Z'') (str ''debt-9'') BANK exampleState) =
      transactions exampleState"
    by blast
  with tr have r1: "transactions (settleDebt False (str ''1704700000000'')
      (str ''2024-01-08T07:46:40.000Z'') (str ''debt-9'') BANK exampleState) = exampleTransactions"
    by simp
  from w2 f u w have "totalUnpaidDebts (debts (settleDebt False (str ''1704700000000'')
         (str ''2024-01-08T07:46:40.000Z'') (str ''debt-2'') BANK exampleState)) =
       totalUnpaidDebts (debts exampleState) - amount_d (exampleDebts ! 1)"
    by blast
  with a t have r2: "totalUnpaidDebts (debts (settleDebt False (str ''1704700000000'')
         (str ''2024-01-08T07:46:40.000Z'') (str ''debt-2'') BANK exampleState)) = 250"
    by simp
  show ?thesis using h1 h3 n r1 f u w t r2 by blast
qed

lemma cent_difference:
  "minus_d 25 (5626684784446013 / 281474976710656) = 1410189633320387 / 281474976710656"
  by code_simp

text \<open>
  C4, as the claim states it, fails: the total of the unpaid debts is a sum in double
  arithmetic. With the unpaid debts 19.99 and 5.01 the total is 25; after the debt of
  19.99 is settled it is 5.01, while 25 less 19.99 is 5.010000000000002.
\<close>

theorem settle_cents_counterexample:
  "find (\<lambda>d. id_d d = str ''debt-1'') (debts centState) = Some (centDebts ! 0)
   \<and> status (centDebts ! 0) = UNPAID
   \<and> amount_d (centDebts ! 0) = 5626684784446013 / 281474976710656
   \<and> totalUnpaidDebts (debts centState) = 25
   \<and> totalUnpaidDebts (debts (settleDebt False (str ''1704700000000'')
         (str ''2024-01-08T07:46:40.000Z'') (str ''debt-1'') CASH centState)) =
       2820379266640773 / 562949953421312
   \<and> minus_d (totalUnpaidDebts (debts centState)) (amount_d (centDebts ! 0)) =
       1410189633320387 / 281474976710656
   \<and> totalUnpaidDebts (debts (settleDebt False (str ''1704700000000'')
         (str ''2024-01-08T07:46:40.000Z'') (str ''debt-1'') CASH centState)) \<noteq>
       totalUnpaidDebts (debts centState) - amount_d (centDebts ! 0)"
proof -
  have f: "find (\<lambda>d. id_d d = str ''debt-1'') (debts centState) = Some (centDebts ! 0)"
    by (simp add: centState_def centDebts_def str_def)
  have u: "status (centDebts ! 0) = UNPAID" by (simp add: centDebts_def)
  have a: "amount_d (centDebts ! 0) = 5626684784446013 / 281474976710656"
    by (simp add: centDebts_def cent_doubles)
  have b: "totalUnpaidDebts (debts centState) = 25"
    by (simp add: totalUnpaidDebts_def centState_def centDebts_def cent_doubles cent_sums)
  have d: "debts (settleDebt False (str ''1704700000000'')
         (str ''2024-01-08T07:46:40.000Z'') (str ''debt-1'') CASH centState) =
       [(centDebts ! 0)\<lparr>status := PAID\<rparr>, centDebts ! 1]"
    by (simp add: settleDebt_def handleSettleDebtRequest_def handleConfirmSettleDebt_def
        centState_def centDebts_def str_def Let_def)
  have c: "totalUnpaidDebts [(centDebts ! 0)\<lparr>status := PAID\<rparr>, centDebts ! 1] =
       2820379266640773 / 562949953421312"
    by (simp add: totalUnpaidDebts_def centDebts_def cent_doubles cent_sums)
  show ?thesis
    by (simp only: f u a b d c cent_difference) simp
qed

section \<open>Search and the script of digits\<close>

lemma numeralReplacement_arabic:
  assumes "0x660 \<le> c" and "c \<le> 0x669"
  shows "numeralReplacement c = [c - 0x660 + 0x30]"
proof -
  have "c = 0x660 \<or> c = 0x661 \<or> c = 0x662 \<or> c = 0x663 \<or> c = 0x664 \<or> c = 0x665 \<or>
        c = 0x666 \<or> c = 0x667 \<or> c = 0x668 \<or> c = 0x669"
    using assms by arith
  then show ?thesis
    by (elim disjE) (simp_all add: numeralReplacement_def numeralMap_def)
qed

lemma numeralReplacement_persian:
  assumes "0x6F0 \<le> c" and "c \<le> 0x6F9"
  shows "numeralReplacement c = [c - 0x6F0 + 0x30]"
proof -
  have "c = 0x6F0 \<or> c = 0x6F1 \<or> c = 0x6F2 \<or> c = 0x6F3 \<or> c = 0x6F4 \<or> c = 0x6F5 \<or>
        c = 0x6F6 \<or> c = 0x6F7 \<or> c = 0x6F8 \<or> c = 0x6F9"
    using assms by arith
  then show ?thesis
    by (elim disjE) (simp_all add: numeralReplacement_def numeralMap_def)
qed

lemma convertToEnglishNumerals_map: "convertToEnglishNumerals s = map normDigit s"
proof (induction s)
  case Nil
  then show ?case by (simp add: convertToEnglishNumerals_def)
next
  case (Cons c s)
  have "(if isArabicPersianNumeral c then numeralReplacement c else [c]) = [normDigit c]"
    by (auto simp: isArabicPersianNumeral_def normDigit_def digitValue_def
        numeralReplacement_arabic numeralReplacement_persian)
  with Cons show ?case by (simp add: convertToEnglishNumerals_def)
qed

lemma sameGlyph_normDigit: "sameGlyph a b \<Longrightarrow> normDigit a = normDigit b"
  by (auto simp: sameGlyph_def digitValue_def normDigit_def split: if_splits)

lemma digitVariant_normDigit: "digitVariant s s' \<Longrightarrow> map normDigit s = map normDigit s'"
  unfolding digitVariant_def
  by (induction rule: list_all2_induct) (simp_all add: sameGlyph_normDigit)

lemma normDigit_digits: "list_all isDigit ds \<Longrightarrow> map normDigit ds = ds"
  by (induction ds) (auto simp: isDigit_def normDigit_def digitValue_def)

lemma take_length_eq: "(take (length sub) xs = sub) = (\<exists>b. xs = sub @ b)"
  by (metis append_eq_conv_conj append_take_drop_id)

lemma includes_s_iff: "includes_s s sub = (\<exists>a b. s = a @ sub @ b)"
proof (induction s)
  case Nil
  then show ?case by auto
next
  case (Cons c cs)
  have "(\<exists>a b. c # cs = a @ sub @ b) =
        ((\<exists>b. c # cs = sub @ b) \<or> (\<exists>a b. cs = a @ sub @ b))"
  proof
    assume "\<exists>a b. c # cs = a @ sub @ b"
    then obtain a b where ab: "c # cs = a @ sub @ b" by blast
    show "(\<exists>b. c # cs = sub @ b) \<or> (\<exists>a b. cs = a @ sub @ b)"
    proof (cases a)
      case Nil
      with ab show ?thesis by auto
    next
      case (Cons x a')
      with ab have "cs = a' @ sub @ b" by simp
      then show ?thesis by blast
    qed
  next
    assume "(\<exists>b. c # cs = sub @ b) \<or> (\<exists>a b. cs = a @ sub @ b)"
    then show "\<exists>a b. c # cs = a @ sub @ b"
    proof
      assume "\<exists>b. c # cs = sub @ b"
      then obtain b where "c # cs = [] @ sub @ b" by auto
      then show ?thesis by blast
    next
      assume "\<exists>a b. cs = a @ sub @ b"
      then obtain a b where "c # cs = (c # a) @ sub @ b" by auto
      then show ?thesis by blast
    qed
  qed
  with Cons show ?case by (simp add: take_length_eq del: take_Suc_Cons)
qed

lemma matchesFilters_iff:
  "matchesFilters lc f t \<longleftrightarrow>
     (searchTerm f = [] \<or>
      (\<exists>a b. lc (map normDigit (description t)) = a @ lc (map normDigit (searchTerm f)) @ b))
   \<and> (filterType f = all_types \<or> type t = filterType f)
   \<and> (startDate f = [] \<or> \<not> strLess (slice0 10 (date t)) (startDate f))
   \<and> (endDate f = [] \<or> \<not> strLess (endDate f) (slice0 10 (date t)))"
  by (auto simp: matchesFilters_def Let_def convertToEnglishNumerals_map includes_s_iff)

lemma digit_run_matches:
  assumes "list_all isDigit ds" and "digitVariant q ds" and "digitVariant mid ds"
    and "keepsDigits lc ds"
  shows "matchesFilters lc ((handleClearFilters f)\<lparr>searchTerm := q\<rparr>)
           (t\<lparr>description := pre @ mid @ post\<rparr>)"
proof -
  have q: "map normDigit q = ds"
    using digitVariant_normDigit [OF assms(2)] normDigit_digits [OF assms(1)] by simp
  have m: "map normDigit mid = ds"
    using digitVariant_normDigit [OF assms(3)] normDigit_digits [OF assms(1)] by simp
  from assms(4) obtain a' b' where
    "lc (map normDigit pre @ ds @ map normDigit post) = a' @ ds @ b'"
    unfolding keepsDigits_def by blast
  moreover from assms(4) have "lc ds = ds" by (simp add: keepsDigits_def)
  ultimately have "\<exists>a b. lc (map normDigit (pre @ mid @ post)) = a @ lc (map normDigit q) @ b"
    by (auto simp: q m)
  then show ?thesis
    by (simp add: matchesFilters_iff handleClearFilters_def)
qed

text \<open>
  C9. The conversion turns every digit of the three scripts into the ASCII digit of the
  same value and leaves every other code unit alone. A transaction passes the filter
  exactly if the search term is empty or the converted and lower-cased search term occurs
  in the converted and lower-cased description, and the type and date conditions hold. So
  the outcome does not depend on the script of the digits: replacing digits of the search
  term or of the description by digits of the same value in another script leaves the
  outcome unchanged; and with the other filters cleared, a search for a run of digits in
  any script matches every description that contains the run in any script (for a case
  conversion that keeps runs of digits).
\<close>

theorem search_digit_script_invariant:
  "convertToEnglishNumerals s = map normDigit s
   \<and> (matchesFilters lc f t \<longleftrightarrow>
        (searchTerm f = [] \<or>
         (\<exists>a b. lc (map normDigit (description t)) =
                  a @ lc (map normDigit (searchTerm f)) @ b))
      \<and> (filterType f = all_types \<or> type t = filterType f)
      \<and> (startDate f = [] \<or> \<not> strLess (slice0 10 (date t)) (startDate f))
      \<and> (endDate f = [] \<or> \<not> strLess (endDate f) (slice0 10 (date t))))
   \<and> (digitVariant q q' \<and> digitVariant d d' \<longrightarrow>
        matchesFilters lc (f\<lparr>searchTerm := q\<rparr>) (t\<lparr>description := d\<rparr>) =
        matchesFilters lc (f\<lparr>searchTerm := q'\<rparr>) (t\<lparr>description := d'\<rparr>))
   \<and> (list_all isDigit ds \<and> digitVariant q ds \<and> digitVariant mid ds \<and> keepsDigits lc ds \<longrightarrow>
        matchesFilters lc ((handleClearFilters f)\<lparr>searchTerm := q\<rparr>)
          (t\<lparr>description := pre @ mid @ post\<rparr>))"
proof -
  have inv: "digitVariant q q' \<and> digitVariant d d' \<longrightarrow>
        matchesFilters lc (f\<lparr>searchTerm := q\<rparr>) (t\<lparr>description := d\<rparr>) =
        matchesFilters lc (f\<lparr>searchTerm := q'\<rparr>) (t\<lparr>description := d'\<rparr>)"
  proof
    assume v: "digitVariant q q' \<and> digitVariant d d'"
    then have "map normDigit q = map normDigit q'" "map normDigit d = map normDigit d'"
      by (simp_all add: digitVariant_normDigit)
    moreover from v have "(q = []) = (q' = [])"
      by (auto simp: digitVariant_def)
    ultimately show "matchesFilters lc (f\<lparr>searchTerm := q\<rparr>) (t\<lparr>description := d\<rparr>) =
        matchesFilters lc (f\<lparr>searchTerm := q'\<rparr>) (t\<lparr>description := d'\<rparr>)"
      by (simp add: matchesFilters_iff)
  qed
  have run: "list_all isDigit ds \<and> digitVariant q ds \<and> digitVariant mid ds \<and> keepsDigits lc ds \<longrightarrow>
        matchesFilters lc ((handleClearFilters f)\<lparr>searchTerm := q\<rparr>)
          (t\<lparr>description := pre @ mid @ post\<rparr>)"
    by (intro impI, elim conjE) (rule digit_run_matches)
  show ?thesis
    by (intro conjI convertToEnglishNumerals_map inv run) (rule matchesFilters_iff)
qed

lemma keepsDigits_asciiLower: "list_all isDigit ds \<Longrightarrow> keepsDigits asciiLower ds"
proof -
  assume d: "list_all isDigit ds"
  then have same: "asciiLower ds = ds"
    by (induction ds) (auto simp: asciiLower_def isDigit_def)
  have "asciiLower (a @ ds @ b) = asciiLower a @ ds @ asciiLower b" for a b
    using same by (simp add: asciiLower_def)
  with same show ?thesis unfolding keepsDigits_def by blast
qed

theorem search_digit_script_invariant_witness:
  "convertToEnglishNumerals [0x661, 0x662, 0x663] = str ''123''
   \<and> list_all isDigit (str ''123'')
   \<and> digitVariant [0x661, 0x662, 0x663] (str ''123'')
   \<and> digitVariant [0x6F1, 0x6F2, 0x6F3] (str ''123'')
   \<and> keepsDigits asciiLower (str ''123'')
   \<and> matchesFilters asciiLower
        ((handleClearFilters exampleFilter)\<lparr>searchTerm := [0x661, 0x662, 0x663]\<rparr>)
        ((exampleTransactions ! 2)\<lparr>description := str ''order '' @ str ''123'' @ []\<rparr>)
   \<and> matchesFilters asciiLower
        ((handleClearFilters exampleFilter)\<lparr>searchTerm := str ''123''\<rparr>)
        ((exampleTransactions ! 2)\<lparr>description := str ''order '' @ [0x6F1, 0x6F2, 0x6F3] @ []\<rparr>)
   \<and> \<not> matchesFilters asciiLower
        ((handleClearFilters exampleFilter)\<lparr>searchTerm := [0x661, 0x662, 0x664]\<rparr>)
        ((exampleTransactions ! 2)\<lparr>description := str ''order 123''\<rparr>)"
proof -
  have c: "map normDigit [0x661, 0x662, 0x663] = str ''123''"
    by (simp add: normDigit_def digitValue_def str_def)
  have g: "list_all isDigit (str ''123'')" by (simp add: isDigit_def str_def)
  have v0: "digitVariant (str ''123'') (str ''123'')"
    by (simp add: digitVariant_def sameGlyph_def str_def)
  have v1: "digitVariant [0x661, 0x662, 0x663] (str ''123'')"
    by (simp add: digitVariant_def sameGlyph_def digitValue_def str_def)
  have v2: "digitVariant [0x6F1, 0x6F2, 0x6F3] (str ''123'')"
    by (simp add: digitVariant_def sameGlyph_def digitValue_def str_def)
  have k: "keepsDigits asciiLower (str ''123'')" by (rule keepsDigits_asciiLower [OF g])
  note w1 = search_digit_script_invariant
    [where s = "[0x661, 0x662, 0x663]" and lc = asciiLower and ds = "str ''123''"
       and q = "[0x661, 0x662, 0x663]" and mid = "str ''123''" and f = exampleFilter
       and t = "exampleTransactions ! 2" and pre = "str ''order ''" and post = "[]"]
  note w2 = search_digit_script_invariant
    [where lc = asciiLower and ds = "str ''123''"
       and q = "str ''123''" and mid = "[0x6F1, 0x6F2, 0x6F3]" and f = exampleFilter
       and t = "exampleTransactions ! 2" and pre = "str ''order ''" and post = "[]"]
  from w1 [THEN conjunct1] c
  have r0: "convertToEnglishNumerals [0x661, 0x662, 0x663] = str ''123''" by simp
  from w1 [THEN conjunct2, THEN conjunct2, THEN conjunct2] g v1 v0 k
  have r1: "matchesFilters asciiLower
        ((handleClearFilters exampleFilter)\<lparr>searchTerm := [0x661, 0x662, 0x663]\<rparr>)
        ((exampleTransactions ! 2)\<lparr>description := str ''order '' @ str ''123'' @ []\<rparr>)"
    by blast
  from w2 [THEN conjunct2, THEN conjunct2, THEN conjunct2] g v0 v2 k
  have r2: "matchesFilters asciiLower
        ((handleClearFilters exampleFilter)\<lparr>searchTerm := str ''123''\<rparr>)
        ((exampleTransactions ! 2)\<lparr>description := str ''order '' @ [0x6F1, 0x6F2, 0x6F3] @ []\<rparr>)"
    by blast
  have r3: "\<not> matchesFilters asciiLower
        ((handleClearFilters exampleFilter)\<lparr>searchTerm := [0x661, 0x662, 0x664]\<rparr>)
        ((exampleTransactions ! 2)\<lparr>description := str ''order 123''\<rparr>)"
    by (simp add: matchesFilters_def handleClearFilters_def exampleFilter_def
        exampleTransactions_def convertToEnglishNumerals_map normDigit_def digitValue_def
        asciiLower_def str_def)
  show ?thesis by (intro conjI r0 g v1 v2 k r1 r2 r3)
qed

section \<open>Export followed by import\<close>



































end
